theory Spec2Isabelle
  imports Complex_Main
begin

section \<open>Numbers, vectors, matrices and errors\<close>

text \<open>
  The program computes on JavaScript numbers held in arrays of arrays. Numbers are
  idealised as exact reals: rounding, overflow to \<open>Infinity\<close> and \<open>NaN\<close> are outside
  the model, and every statement below about the value of a number is a statement
  about this idealisation. A vector is a list, a matrix is a list of rows; nothing in
  the type forces the rows to have one length, exactly as in the source.

  Two kinds of failure occur in the source: the \<open>Error\<close> objects thrown explicitly by
  the two weight loaders (with their message), and the \<open>TypeError\<close> that the runtime
  throws when a property of \<open>undefined\<close> or \<open>null\<close> is read. Whether a call throws
  depends on the shapes of its arguments only, never on the numbers in them.
\<close>

type_synonym vec = "real list"
type_synonym matrix = "real list list"

datatype error = Error string | TypeError

text \<open>
  Reading an element beyond the end of an array yields \<open>undefined\<close> in JavaScript and
  arithmetic on it yields \<open>NaN\<close>. The model has no such number: \<open>NaN\<close> below is a real
  about which nothing is known, and it is only reached on ragged or too short inputs.
\<close>

definition NaN :: real where
  "NaN = undefined"

definition elem :: "vec \<Rightarrow> nat \<Rightarrow> real" where
  "elem row k = (if k < length row then row ! k else NaN)"

section \<open>MathUtils (js/math.js)\<close>

text \<open>
  \<open>matmul(A, B)\<close>: \<open>rowsA = A.length\<close>, \<open>colsA = A[0].length\<close>, \<open>colsB = B[0].length\<close>;
  reading \<open>.length\<close> of a missing first row throws. Inside the loops \<open>B[k][j]\<close> throws
  when \<open>B\<close> has fewer than \<open>colsA\<close> rows (and the loop over \<open>j\<close> runs at all). The
  inner loop accumulates \<open>sum += A[i][k] * B[k][j]\<close> from \<open>0\<close>.
\<close>

definition dot_row :: "nat \<Rightarrow> vec \<Rightarrow> matrix \<Rightarrow> nat \<Rightarrow> real" where
  "dot_row colsA arow B j =
     foldl (\<lambda>sum k. sum + elem arow k * elem (B ! k) j) 0 [0..<colsA]"

definition matmul :: "matrix \<Rightarrow> matrix \<Rightarrow> error + matrix" where
  "matmul A B =
     (case A of
        [] \<Rightarrow> Inl TypeError
      | a0 # _ \<Rightarrow>
          (case B of
             [] \<Rightarrow> Inl TypeError
           | b0 # _ \<Rightarrow>
               (let colsA = length a0; colsB = length b0 in
                if 0 < colsB \<and> length B < colsA then Inl TypeError
                else Inr (map (\<lambda>arow. map (\<lambda>j. dot_row colsA arow B j) [0..<colsB]) A))))"

text \<open>A weight that is \<open>null\<close> or \<open>undefined\<close> makes \<open>B[0]\<close> (or, before it, \<open>A[0].length\<close>) throw.\<close>

definition matmul_opt :: "matrix \<Rightarrow> matrix option \<Rightarrow> error + matrix" where
  "matmul_opt A B = (case B of None \<Rightarrow> Inl TypeError | Some W \<Rightarrow> matmul A W)"

text \<open>\<open>transpose(A)\<close>: \<open>T[j][i] = A[i][j]\<close> for \<open>j < A[0].length\<close>, \<open>i < A.length\<close>.\<close>

definition transpose_m :: "matrix \<Rightarrow> error + matrix" where
  "transpose_m A =
     (case A of
        [] \<Rightarrow> Inl TypeError
      | a0 # _ \<Rightarrow> Inr (map (\<lambda>j. map (\<lambda>arow. elem arow j) A) [0..<length a0]))"

text \<open>
  \<open>softmax(scores, temperature)\<close>, one row at a time: the row maximum, the exponentials
  of \<open>(s - maxScore) / temperature\<close>, their sum (a \<open>reduce\<close> from \<open>0\<close>) and the quotients.
  For an empty row \<open>Math.max()\<close> is \<open>-Infinity\<close>, which is never used because mapping
  over the empty row yields the empty row. The function has no \<open>throw\<close> and no check of
  \<open>temperature\<close>.
\<close>

fun softmax_row :: "real \<Rightarrow> vec \<Rightarrow> vec" where
  "softmax_row temperature [] = []"
| "softmax_row temperature (s0 # ss) =
     (let row = s0 # ss;
          maxScore = foldl max s0 ss;
          expScores = map (\<lambda>s. exp ((s - maxScore) / temperature)) row;
          sumExp = foldl (+) 0 expScores
      in map (\<lambda>e. e / sumExp) expScores)"

definition softmax :: "matrix \<Rightarrow> real \<Rightarrow> error + matrix" where
  "softmax scores temperature = Inr (map (softmax_row temperature) scores)"

text \<open>
  \<open>randomMatrix(rows, cols)\<close> draws \<open>rows * cols\<close> numbers from \<open>Math.random()\<close>, row by
  row. The generator is a parameter: the sequence \<open>rnd\<close> of the numbers it will return
  and the position \<open>pos\<close> of the next one; the new position is returned with the matrix.
\<close>

definition randomMatrix :: "nat \<Rightarrow> nat \<Rightarrow> (nat \<Rightarrow> real) \<Rightarrow> nat \<Rightarrow> matrix \<times> nat" where
  "randomMatrix rows cols rnd pos =
     (let scale = sqrt (2 / real (rows + cols))
      in (map (\<lambda>i. map (\<lambda>j. (rnd (pos + i * cols + j) - 1 / 2) * 2 * scale) [0..<cols]) [0..<rows],
          pos + rows * cols))"

section \<open>The engine (js/mhsa.js)\<close>

text \<open>
  One head of the engine, and equally one head object of a weight bundle: every field
  may be missing (\<open>undefined\<close>) or \<open>null\<close>, both modelled by \<open>None\<close>.
\<close>

record head =
  Wq :: "matrix option"
  Wk :: "matrix option"
  Wv :: "matrix option"
  Wo :: "matrix option"
  bq :: "vec option"
  bk :: "vec option"
  bv :: "vec option"

text \<open>The fields of a \<open>MultiHeadSelfAttention\<close> object; \<open>this_Wo\<close> is the combined \<open>this.Wo\<close>.\<close>

record engine =
  embedDim :: nat
  numHeads :: nat
  headDim :: nat
  temperature :: real
  heads :: "head list"
  this_Wo :: "matrix option"
  bo :: "vec option"
  isRealModel :: bool
  modelName :: "string option"
  useBias :: bool

text \<open>
  The externally supplied weight structure (parsed JSON). \<open>modelConfig_isRealModel\<close> is
  \<open>weights.modelConfig?.isRealModel\<close>, \<open>None\<close> when either part is missing.
\<close>

record config =
  embed_dim :: "nat option"
  num_heads :: "nat option"
  head_dim :: "nat option"

record weights =
  w_heads :: "head list option"
  w_Wo :: "matrix option"
  w_bo :: "vec option"
  w_config :: "config option"
  w_model_name :: "string option"
  modelConfig_isRealModel :: "bool option"

text \<open>
  The constructor. Dimensions are natural numbers; \<open>Math.floor(embedDim / numHeads)\<close> is
  \<open>div\<close> for \<open>numHeads > 0\<close>. (For \<open>numHeads = 0\<close> the source stores \<open>Infinity\<close> or \<open>NaN\<close>,
  which a \<open>nat\<close> cannot hold; the model stores \<open>0\<close> there.)
\<close>

definition constructor :: "nat \<Rightarrow> nat \<Rightarrow> real \<Rightarrow> engine" where
  "constructor embedDim' numHeads' temperature' =
     \<lparr>embedDim = embedDim', numHeads = numHeads', headDim = embedDim' div numHeads',
      temperature = temperature', heads = [], this_Wo = None, bo = None,
      isRealModel = False, modelName = None, useBias = False\<rparr>"

text \<open>
  \<open>initializeRandomWeights\<close>: for each head four random matrices in the order
  \<open>Wq\<close>, \<open>Wk\<close>, \<open>Wv\<close>, \<open>Wo\<close>, then the combined \<open>this.Wo\<close>.
\<close>

primrec random_heads :: "nat \<Rightarrow> nat \<Rightarrow> nat \<Rightarrow> (nat \<Rightarrow> real) \<Rightarrow> nat \<Rightarrow> head list \<times> nat" where
  "random_heads 0 edim hdim rnd pos = ([], pos)"
| "random_heads (Suc n) edim hdim rnd pos =
     (let (wq, p1) = randomMatrix edim hdim rnd pos;
          (wk, p2) = randomMatrix edim hdim rnd p1;
          (wv, p3) = randomMatrix edim hdim rnd p2;
          (wo, p4) = randomMatrix hdim edim rnd p3;
          (rest, p5) = random_heads n edim hdim rnd p4
      in (\<lparr>Wq = Some wq, Wk = Some wk, Wv = Some wv, Wo = Some wo,
            bq = None, bk = None, bv = None\<rparr> # rest, p5))"

definition initializeRandomWeights :: "engine \<Rightarrow> (nat \<Rightarrow> real) \<Rightarrow> nat \<Rightarrow> engine \<times> nat" where
  "initializeRandomWeights e rnd pos =
     (let (hs, p1) = random_heads (numHeads e) (embedDim e) (headDim e) rnd pos;
          (wo, p2) = randomMatrix (numHeads e * headDim e) (embedDim e) rnd p1
      in (e\<lparr>heads := hs, this_Wo := Some wo, bo := None, isRealModel := False,
             modelName := Some ''Random Initialization'', useBias := False\<rparr>, p2))"

definition createRandomMHSA :: "nat \<Rightarrow> nat \<Rightarrow> real \<Rightarrow> (nat \<Rightarrow> real) \<Rightarrow> nat \<Rightarrow> engine \<times> nat" where
  "createRandomMHSA embedDim' numHeads' temperature' rnd pos =
     initializeRandomWeights (constructor embedDim' numHeads' temperature') rnd pos"

text \<open>
  The two loaders mutate the engine field by field and may throw in the middle, so a
  call returns the exception (if any) together with the engine as it then is.
  \<open>copy_head\<close> is the object built by \<open>weights.heads.map(...)\<close>; as \<open>null\<close> and
  \<open>undefined\<close> are one value here, \<open>x || null\<close> is \<open>x\<close>.
\<close>

definition copy_head :: "head \<Rightarrow> head" where
  "copy_head h = \<lparr>Wq = Wq h, Wk = Wk h, Wv = Wv h, Wo = Wo h, bq = bq h, bk = bk h, bv = bv h\<rparr>"

text \<open>
  \<open>weights.heads[0].Wq[0].length\<close> and \<open>weights.heads[0].Wq.length\<close>: each step throws
  when the object before it is missing.
\<close>

definition first_Wq :: "head list \<Rightarrow> error + matrix" where
  "first_Wq hs =
     (case hs of [] \<Rightarrow> Inl TypeError
      | h0 # _ \<Rightarrow> (case Wq h0 of None \<Rightarrow> Inl TypeError | Some wq \<Rightarrow> Inr wq))"

definition first_Wq_cols :: "head list \<Rightarrow> error + nat" where
  "first_Wq_cols hs =
     (case first_Wq hs of Inl err \<Rightarrow> Inl err
      | Inr wq \<Rightarrow> (case wq of [] \<Rightarrow> Inl TypeError | row0 # _ \<Rightarrow> Inr (length row0)))"

definition first_Wq_rows :: "head list \<Rightarrow> error + nat" where
  "first_Wq_rows hs = (case first_Wq hs of Inl err \<Rightarrow> Inl err | Inr wq \<Rightarrow> Inr (length wq))"

definition loadRealWeights :: "engine \<Rightarrow> weights option \<Rightarrow> string option \<Rightarrow> error option \<times> engine" where
  "loadRealWeights e w name =
     (case w of
        None \<Rightarrow> (Some (Error ''Invalid weight structure''), e)
      | Some ws \<Rightarrow>
          (case (w_heads ws, w_Wo ws) of
             (Some hs, Some wo) \<Rightarrow>
               (let e1 = e\<lparr>numHeads := length hs\<rparr> in
                case first_Wq_cols hs of
                  Inl err \<Rightarrow> (Some err, e1)
                | Inr hdim \<Rightarrow>
                    (let e2 = e1\<lparr>headDim := hdim\<rparr> in
                     case first_Wq_rows hs of
                       Inl err \<Rightarrow> (Some err, e2)
                     | Inr edim \<Rightarrow>
                         (None,
                          e2\<lparr>embedDim := edim, heads := map copy_head hs, this_Wo := Some wo,
                             bo := w_bo ws, isRealModel := True, modelName := name,
                             useBias := (bq (hd hs) \<noteq> None)\<rparr>)))
           | _ \<Rightarrow> (Some (Error ''Invalid weight structure''), e)))"

text \<open>
  \<open>a || b\<close> on numbers and on strings: \<open>0\<close>, the empty string and a missing value are
  falsy. The right operand is evaluated only when needed, so its exception is too.
\<close>

definition num_or :: "nat option \<Rightarrow> error + nat \<Rightarrow> error + nat" where
  "num_or a alt = (case a of None \<Rightarrow> alt | Some n \<Rightarrow> if n = 0 then alt else Inr n)"

definition str_or :: "string option \<Rightarrow> string option \<Rightarrow> string option" where
  "str_or a alt = (case a of None \<Rightarrow> alt | Some s \<Rightarrow> if s = [] then alt else Some s)"

definition loadPreExtractedWeights ::
    "engine \<Rightarrow> weights option \<Rightarrow> string option \<Rightarrow> error option \<times> engine" where
  "loadPreExtractedWeights e w name =
     (case w of
        None \<Rightarrow> (Some (Error ''Invalid pre-extracted weight structure''), e)
      | Some ws \<Rightarrow>
          (case w_heads ws of
             None \<Rightarrow> (Some (Error ''Invalid pre-extracted weight structure''), e)
           | Some hs \<Rightarrow>
               (let cfg = (case w_config ws of
                             None \<Rightarrow> \<lparr>embed_dim = None, num_heads = None, head_dim = None\<rparr>
                           | Some c \<Rightarrow> c);
                    e1 = e\<lparr>numHeads :=
                            (case num_or (num_heads cfg) (Inr (length hs)) of
                               Inr n \<Rightarrow> n | Inl _ \<Rightarrow> length hs)\<rparr>
                in
                case num_or (head_dim cfg) (first_Wq_cols hs) of
                  Inl err \<Rightarrow> (Some err, e1)
                | Inr hdim \<Rightarrow>
                    (let e2 = e1\<lparr>headDim := hdim\<rparr> in
                     case num_or (embed_dim cfg) (first_Wq_rows hs) of
                       Inl err \<Rightarrow> (Some err, e2)
                     | Inr edim \<Rightarrow>
                         (let e3 = e2\<lparr>embedDim := edim, heads := map copy_head hs,
                                       this_Wo := None, bo := w_bo ws,
                                       isRealModel := (modelConfig_isRealModel ws \<noteq> Some False),
                                       modelName :=
                                         str_or name (str_or (w_model_name ws)
                                           (Some ''Pre-extracted Model''))\<rparr>
                          in
                          case hs of
                            [] \<Rightarrow> (Some TypeError, e3)
                          | h0 # _ \<Rightarrow> (None, e3\<lparr>useBias := (bq h0 \<noteq> None)\<rparr>))))))"

text \<open>Sequencing of calls that may throw: the first exception ends the computation.\<close>

definition then_e :: "error + 'a \<Rightarrow> ('a \<Rightarrow> error + 'b) \<Rightarrow> error + 'b" where
  "then_e m f = (case m of Inl err \<Rightarrow> Inl err | Inr x \<Rightarrow> f x)"

text \<open>\<open>linearProjection(X, W, b)\<close>: the product, then \<open>result[i][j] += b[j]\<close> when \<open>b\<close> is
  present and not empty.\<close>

definition linearProjection :: "matrix \<Rightarrow> matrix option \<Rightarrow> vec option \<Rightarrow> error + matrix" where
  "linearProjection X W b =
     then_e (matmul_opt X W) (\<lambda>result.
       Inr (case b of
              None \<Rightarrow> result
            | Some bs \<Rightarrow>
                if 0 < length bs
                then map (\<lambda>row. map (\<lambda>j. row ! j + elem bs j) [0..<length row]) result
                else result))"

text \<open>\<open>scaledDotProductAttention(Q, K, V)\<close> returns \<open>{output, attentionWeights, scores}\<close>.\<close>

definition scaledDotProductAttention ::
    "engine \<Rightarrow> matrix \<Rightarrow> matrix \<Rightarrow> matrix \<Rightarrow> error + (matrix \<times> matrix \<times> matrix)" where
  "scaledDotProductAttention e Qm Km Vm =
     then_e (transpose_m Km) (\<lambda>KT.
     then_e (matmul Qm KT) (\<lambda>scores.
       let scale = sqrt (real (headDim e));
           scaledScores = map (\<lambda>row. map (\<lambda>val. val / scale) row) scores
       in
       then_e (softmax scaledScores (temperature e)) (\<lambda>attentionWeights.
       then_e (matmul attentionWeights Vm) (\<lambda>output.
         Inr (output, attentionWeights, scaledScores)))))"

text \<open>
  What \<open>forward\<close> records for a head (the entry also refers to the head's weight
  matrices, which are the engine's own and are left out here) and what it returns;
  \<open>r_output\<close> is the field \<open>output\<close> of the returned object.
\<close>

record head_output =
  ho_Q :: matrix
  ho_K :: matrix
  ho_V :: matrix
  ho_output :: matrix
  ho_attentionWeights :: matrix
  ho_scores :: matrix

record forward_result =
  r_output :: matrix
  headOutputs :: "head_output list"
  headAttentions :: "matrix list"
  concatenated :: matrix
  headProjectedOutputs :: "matrix list option"

text \<open>The body of the loop over the heads: the head's trace and, when the head has a
  \<open>Wo\<close>, its projected output.\<close>

definition head_step :: "engine \<Rightarrow> matrix \<Rightarrow> head \<Rightarrow> error + (head_output \<times> matrix option)" where
  "head_step e X h =
     then_e (linearProjection X (Wq h) (bq h)) (\<lambda>Qm.
     then_e (linearProjection X (Wk h) (bk h)) (\<lambda>Km.
     then_e (linearProjection X (Wv h) (bv h)) (\<lambda>Vm.
     then_e (scaledDotProductAttention e Qm Km Vm) (\<lambda>(out, attentionWeights, scores).
     then_e (case Wo h of
               None \<Rightarrow> Inr None
             | Some W \<Rightarrow> then_e (matmul out W) (\<lambda>projected. Inr (Some projected)))
       (\<lambda>proj.
         Inr (\<lparr>ho_Q = Qm, ho_K = Km, ho_V = Vm, ho_output = out,
               ho_attentionWeights = attentionWeights, ho_scores = scores\<rparr>, proj))))))"

text \<open>
  The loop \<open>for (h = 0; h < numHeads; h++)\<close> over the indices it visits. \<open>this.heads[h]\<close>
  beyond the end is \<open>undefined\<close> and reading its \<open>Wq\<close> throws. The two lists are
  \<open>headOutputs\<close> and \<open>headProjectedOutputs\<close>, in the order of the pushes.
\<close>

fun heads_loop :: "engine \<Rightarrow> matrix \<Rightarrow> nat list \<Rightarrow> error + (head_output list \<times> matrix list)" where
  "heads_loop e X [] = Inr ([], [])"
| "heads_loop e X (h # hs) =
     (if h < length (heads e)
      then then_e (head_step e X (heads e ! h)) (\<lambda>(ho, proj).
           then_e (heads_loop e X hs) (\<lambda>(hos, projs).
             Inr (ho # hos, (case proj of None \<Rightarrow> projs | Some p \<Rightarrow> p # projs))))
      else Inl TypeError)"

text \<open>
  \<open>row[j] += g(j)\<close> for \<open>j < n\<close>: writing beyond the end of a JavaScript array extends
  it, so the row ends with length \<open>max (length row) n\<close>.
\<close>

definition add_row :: "nat \<Rightarrow> vec \<Rightarrow> (nat \<Rightarrow> real) \<Rightarrow> vec" where
  "add_row n frow g =
     map (\<lambda>j. if j < n then elem frow j + g j else frow ! j) [0..<max (length frow) n]"

text \<open>
  The two accumulation loops of the per-head branch and the concatenation loop. They
  visit the rows \<open>i < seqLen\<close>; every matrix they index has exactly \<open>seqLen\<close> rows
  (lemma \<open>heads_loop_Inr\<close> below).
\<close>

definition add_into :: "nat \<Rightarrow> nat \<Rightarrow> matrix \<Rightarrow> matrix \<Rightarrow> matrix" where
  "add_into seqLen edim F P = map (\<lambda>i. add_row edim (F ! i) (elem (P ! i))) [0..<seqLen]"

definition add_bias_into :: "nat \<Rightarrow> nat \<Rightarrow> matrix \<Rightarrow> vec \<Rightarrow> matrix" where
  "add_bias_into seqLen edim F b = map (\<lambda>i. add_row edim (F ! i) (elem b)) [0..<seqLen]"

definition concat_rows :: "nat \<Rightarrow> head_output list \<Rightarrow> matrix" where
  "concat_rows seqLen hos = map (\<lambda>i. concat (map (\<lambda>ho. ho_output ho ! i) hos)) [0..<seqLen]"

definition forward :: "engine \<Rightarrow> matrix \<Rightarrow> error + forward_result" where
  "forward e embeddings =
     (let seqLen = length embeddings in
      then_e (heads_loop e embeddings [0..<numHeads e]) (\<lambda>(hos, projs).
        if length projs = numHeads e
        then (case projs of
                [] \<Rightarrow> Inl TypeError
              | p0 # ps \<Rightarrow>
                  (let summed = foldl (add_into seqLen (embedDim e)) p0 ps;
                       finalOutput =
                         (case bo e of
                            None \<Rightarrow> summed
                          | Some b \<Rightarrow>
                              if 0 < length b then add_bias_into seqLen (embedDim e) summed b
                              else summed)
                   in Inr \<lparr>r_output = finalOutput, headOutputs = hos,
                           headAttentions = map ho_attentionWeights hos,
                           concatenated = concat_rows seqLen hos,
                           headProjectedOutputs = Some projs\<rparr>))
        else then_e (matmul_opt (concat_rows seqLen hos) (this_Wo e)) (\<lambda>finalOutput.
               Inr \<lparr>r_output = finalOutput, headOutputs = hos,
                     headAttentions = map ho_attentionWeights hos,
                     concatenated = concat_rows seqLen hos,
                     headProjectedOutputs = (if projs = [] then None else Some projs)\<rparr>)))"

section \<open>Well-formed data\<close>

text \<open>
  The shapes that the data model of the specification prescribes. A matrix of shape
  \<open>[r \<times> c]\<close> has \<open>r\<close> rows, each of length \<open>c\<close>; an optional matrix or vector, when
  present, has the given shape.
\<close>

definition is_matrix :: "nat \<Rightarrow> nat \<Rightarrow> matrix \<Rightarrow> bool" where
  "is_matrix r c M = (length M = r \<and> list_all (\<lambda>row. length row = c) M)"

definition opt_matrix :: "nat \<Rightarrow> nat \<Rightarrow> matrix option \<Rightarrow> bool" where
  "opt_matrix r c W = (case W of None \<Rightarrow> True | Some M \<Rightarrow> is_matrix r c M)"

definition has_matrix :: "nat \<Rightarrow> nat \<Rightarrow> matrix option \<Rightarrow> bool" where
  "has_matrix r c W = (case W of None \<Rightarrow> False | Some M \<Rightarrow> is_matrix r c M)"

definition opt_vec :: "nat \<Rightarrow> vec option \<Rightarrow> bool" where
  "opt_vec n b = (case b of None \<Rightarrow> True | Some bs \<Rightarrow> length bs = n)"

text \<open>
  A head: \<open>Wq\<close>, \<open>Wk\<close>, \<open>Wv\<close> of shape \<open>[embedDim \<times> headDim]\<close>, an optional \<open>Wo\<close> of
  shape \<open>[headDim \<times> embedDim]\<close>, optional biases of length \<open>headDim\<close>.
\<close>

definition wf_head :: "nat \<Rightarrow> nat \<Rightarrow> head \<Rightarrow> bool" where
  "wf_head edim hdim h =
     (has_matrix edim hdim (Wq h) \<and> has_matrix edim hdim (Wk h) \<and> has_matrix edim hdim (Wv h) \<and>
      opt_matrix hdim edim (Wo h) \<and>
      opt_vec hdim (bq h) \<and> opt_vec hdim (bk h) \<and> opt_vec hdim (bv h))"

text \<open>
  An initialised engine: positive dimensions and temperature, as many heads as
  \<open>numHeads\<close> says, every head well-formed, the combined \<open>Wo\<close> (when present) of shape
  \<open>[numHeads \<cdot> headDim \<times> embedDim]\<close> and required unless every head has its own \<open>Wo\<close>,
  and a combined bias (when present) of length \<open>embedDim\<close>.
\<close>

definition wf_engine :: "engine \<Rightarrow> bool" where
  "wf_engine e =
     (0 < embedDim e \<and> 0 < headDim e \<and> 0 < numHeads e \<and> 0 < temperature e \<and>
      length (heads e) = numHeads e \<and>
      list_all (wf_head (embedDim e) (headDim e)) (heads e) \<and>
      opt_matrix (numHeads e * headDim e) (embedDim e) (this_Wo e) \<and>
      (list_all (\<lambda>h. Wo h \<noteq> None) (heads e) \<or> this_Wo e \<noteq> None) \<and>
      opt_vec (embedDim e) (bo e))"

text \<open>
  A \<open>config\<close> entry agrees with a dimension when it is missing, \<open>0\<close> (which \<open>||\<close> skips)
  or equal to it; a per-head bundle's \<open>config\<close> block agrees with the dimensions of
  its matrices when every entry does.
\<close>

definition dim_agrees :: "nat option \<Rightarrow> nat \<Rightarrow> bool" where
  "dim_agrees c v = (c = None \<or> c = Some 0 \<or> c = Some v)"

definition config_agrees :: "weights \<Rightarrow> nat \<Rightarrow> nat \<Rightarrow> nat \<Rightarrow> bool" where
  "config_agrees w edim nheads hdim =
     (case w_config w of
        None \<Rightarrow> True
      | Some c \<Rightarrow> dim_agrees (embed_dim c) edim \<and> dim_agrees (num_heads c) nheads \<and>
                  dim_agrees (head_dim c) hdim)"

definition num_heads_agrees :: "weights \<Rightarrow> nat \<Rightarrow> bool" where
  "num_heads_agrees w k =
     (case w_config w of None \<Rightarrow> True | Some c \<Rightarrow> dim_agrees (num_heads c) k)"

text \<open>
  A matrix drawn by \<open>randomMatrix\<close>: of the given shape, every entry a number of the
  generator moved to \<open>[-1, 1]\<close> and scaled by \<open>sqrt (2 / (rows + cols))\<close>.
\<close>

definition xavier_matrix :: "nat \<Rightarrow> nat \<Rightarrow> (nat \<Rightarrow> real) \<Rightarrow> matrix option \<Rightarrow> bool" where
  "xavier_matrix r c rnd W =
     (case W of
        None \<Rightarrow> False
      | Some M \<Rightarrow> is_matrix r c M \<and>
          (\<forall>row \<in> set M. \<forall>x \<in> set row. \<exists>i. x = (rnd i - 1 / 2) * 2 * sqrt (2 / real (r + c))))"

section \<open>The merge as the specification describes it\<close>

text \<open>
  The specification states the merge with matrix operations: elementwise sum of the
  heads' contributions into a zero accumulator of shape \<open>[seqLen \<times> embedDim]\<close>, the
  bias added to every row, horizontal concatenation (of no matrices: the empty
  matrix). These are those operations, written independently of the loops of
  \<open>forward\<close>; the product is \<open>matmul\<close>, and \<open>sequence_e\<close> collects the products of all
  heads.
\<close>

definition mat_add :: "matrix \<Rightarrow> matrix \<Rightarrow> matrix" where
  "mat_add A B = map2 (map2 (+)) A B"

definition zeros :: "nat \<Rightarrow> nat \<Rightarrow> matrix" where
  "zeros r c = replicate r (replicate c 0)"

definition add_to_rows :: "vec \<Rightarrow> matrix \<Rightarrow> matrix" where
  "add_to_rows b M = map (\<lambda>row. map2 (+) row b) M"

definition concatHorizontal :: "matrix list \<Rightarrow> matrix" where
  "concatHorizontal Ms =
     (case Ms of [] \<Rightarrow> [] | M0 # _ \<Rightarrow> map (\<lambda>i. concat (map (\<lambda>M. M ! i) Ms)) [0..<length M0])"

fun sequence_e :: "(error + 'a) list \<Rightarrow> error + 'a list" where
  "sequence_e [] = Inr []"
| "sequence_e (m # ms) = then_e m (\<lambda>x. then_e (sequence_e ms) (\<lambda>xs. Inr (x # xs)))"

text \<open>
  Project-then-sum: each head's contribution is \<open>headOutput \<cdot> headWo\<close>; the
  contributions are summed and the combined bias, if present, is added to every row.
\<close>

definition merge_per_head :: "engine \<Rightarrow> nat \<Rightarrow> matrix list \<Rightarrow> error + matrix" where
  "merge_per_head e seqLen outs =
     then_e (sequence_e (map2 (\<lambda>out h. matmul_opt out (Wo h)) outs (heads e))) (\<lambda>contribs.
       let acc = foldl mat_add (zeros seqLen (embedDim e)) contribs
       in Inr (case bo e of None \<Rightarrow> acc | Some b \<Rightarrow> add_to_rows b acc))"

text \<open>Concatenate-then-project: the concatenation times the combined \<open>Wo\<close>.\<close>

definition merge_concat :: "engine \<Rightarrow> matrix list \<Rightarrow> error + matrix" where
  "merge_concat e outs = matmul_opt (concatHorizontal outs) (this_Wo e)"

text \<open>The structural choice: per head when every head carries a \<open>Wo\<close>, combined otherwise.\<close>

definition spec_merge :: "engine \<Rightarrow> nat \<Rightarrow> matrix list \<Rightarrow> error + matrix" where
  "spec_merge e seqLen outs =
     (if list_all (\<lambda>h. Wo h \<noteq> None) (heads e) then merge_per_head e seqLen outs
      else merge_concat e outs)"

text \<open>
  Which branch a call took can be read off its result: the per-head branch is the
  one in which \<open>headProjectedOutputs\<close> has an entry for every head.
\<close>

definition took_per_head_path :: "engine \<Rightarrow> forward_result \<Rightarrow> bool" where
  "took_per_head_path e r =
     (case headProjectedOutputs r of None \<Rightarrow> False | Some projs \<Rightarrow> length projs = numHeads e)"

text \<open>
  Two auxiliary notions for the comparison of the branches: the product of
  matrices of known widths, and the row-wise concatenation of \<open>n\<close>-row matrices.
\<close>

definition prodM :: "nat \<Rightarrow> nat \<Rightarrow> matrix \<Rightarrow> matrix \<Rightarrow> matrix" where
  "prodM c d A B = map (\<lambda>arow. map (\<lambda>j. dot_row c arow B j) [0..<d]) A"

definition rowsH :: "nat \<Rightarrow> matrix list \<Rightarrow> matrix" where
  "rowsH n Ms = map (\<lambda>i. concat (map (\<lambda>M. M ! i) Ms)) [0..<n]"

section \<open>Example inputs\<close>

text \<open>A head object with \<open>Wq\<close> only, a bundle built from it, a bundle with no \<open>heads\<close>
  field and a bundle whose \<open>heads\<close> is the empty array.\<close>

definition head_only_Wq :: head where
  "head_only_Wq = \<lparr>Wq = Some [[1]], Wk = None, Wv = None, Wo = None,
                    bq = None, bk = None, bv = None\<rparr>"

definition bundle_missing_Wk_Wv :: weights where
  "bundle_missing_Wk_Wv =
     \<lparr>w_heads = Some [head_only_Wq], w_Wo = Some [[1]], w_bo = None,
      w_config = None, w_model_name = None, modelConfig_isRealModel = None\<rparr>"

definition bundle_no_heads :: weights where
  "bundle_no_heads =
     \<lparr>w_heads = None, w_Wo = Some [[1]], w_bo = None,
      w_config = None, w_model_name = None, modelConfig_isRealModel = None\<rparr>"

definition bundle_empty_heads :: weights where
  "bundle_empty_heads =
     \<lparr>w_heads = Some [], w_Wo = Some [[1]], w_bo = None,
      w_config = None, w_model_name = None, modelConfig_isRealModel = None\<rparr>"

text \<open>
  Two heads of dimension 1 over embeddings of dimension 2. Their \<open>Wq\<close> and \<open>Wk\<close> are
  zero, so every score is \<open>0\<close> and every attention weight \<open>1/2\<close>; \<open>Wv\<close> selects one
  coordinate and \<open>Wo\<close> puts it back in its place. \<open>ex_X\<close> is a sequence of two tokens.
\<close>

definition ex_head1 :: head where
  "ex_head1 = \<lparr>Wq = Some [[0], [0]], Wk = Some [[0], [0]], Wv = Some [[1], [0]],
                Wo = Some [[1, 0]], bq = None, bk = None, bv = None\<rparr>"

definition ex_head2 :: head where
  "ex_head2 = \<lparr>Wq = Some [[0], [0]], Wk = Some [[0], [0]], Wv = Some [[0], [1]],
                Wo = Some [[0, 1]], bq = None, bk = None, bv = None\<rparr>"

definition ex_X :: matrix where
  "ex_X = [[1, 2], [3, 4]]"

text \<open>
  A per-head bundle of these heads and the legacy bundle with the same effective
  map (the combined \<open>Wo\<close> is the per-head ones stacked), the engines the loaders make
  of them from \<open>constructor 2 2 1\<close>, and a per-head engine that also has a bias.
\<close>

definition ex_per_head_bundle :: weights where
  "ex_per_head_bundle =
     \<lparr>w_heads = Some [ex_head1, ex_head2], w_Wo = None, w_bo = None,
      w_config = Some \<lparr>embed_dim = Some 2, num_heads = Some 2, head_dim = Some 1\<rparr>,
      w_model_name = None, modelConfig_isRealModel = None\<rparr>"

definition ex_legacy_bundle :: weights where
  "ex_legacy_bundle =
     \<lparr>w_heads = Some [ex_head1\<lparr>Wo := None\<rparr>, ex_head2\<lparr>Wo := None\<rparr>],
      w_Wo = Some [[1, 0], [0, 1]], w_bo = None,
      w_config = None, w_model_name = None, modelConfig_isRealModel = None\<rparr>"

definition ex_loaded_engine :: engine where
  "ex_loaded_engine =
     \<lparr>embedDim = 2, numHeads = 2, headDim = 1, temperature = 1,
      heads = [ex_head1, ex_head2], this_Wo = None, bo = None,
      isRealModel = True, modelName = Some ''Pre-extracted Model'', useBias = False\<rparr>"

definition ex_legacy_engine :: engine where
  "ex_legacy_engine =
     \<lparr>embedDim = 2, numHeads = 2, headDim = 1, temperature = 1,
      heads = [ex_head1\<lparr>Wo := None\<rparr>, ex_head2\<lparr>Wo := None\<rparr>],
      this_Wo = Some [[1, 0], [0, 1]], bo = None,
      isRealModel = True, modelName = None, useBias = False\<rparr>"

definition ex_per_head_engine :: engine where
  "ex_per_head_engine =
     \<lparr>embedDim = 2, numHeads = 2, headDim = 1, temperature = 1,
      heads = [ex_head1, ex_head2], this_Wo = None, bo = Some [10, 20],
      isRealModel = True, modelName = None, useBias = False\<rparr>"

text \<open>What \<open>forward\<close> records for the two heads on \<open>ex_X\<close>, and what it returns.\<close>

definition ex_trace1 :: head_output where
  "ex_trace1 = \<lparr>ho_Q = [[0], [0]], ho_K = [[0], [0]], ho_V = [[1], [3]], ho_output = [[2], [2]],
         ho_attentionWeights = [[1 / 2, 1 / 2], [1 / 2, 1 / 2]], ho_scores = [[0, 0], [0, 0]]\<rparr>"

definition ex_trace2 :: head_output where
  "ex_trace2 = \<lparr>ho_Q = [[0], [0]], ho_K = [[0], [0]], ho_V = [[2], [4]], ho_output = [[3], [3]],
         ho_attentionWeights = [[1 / 2, 1 / 2], [1 / 2, 1 / 2]], ho_scores = [[0, 0], [0, 0]]\<rparr>"

definition ex_result_per_head :: forward_result where
  "ex_result_per_head =
     \<lparr>r_output = [[12, 23], [12, 23]], headOutputs = [ex_trace1, ex_trace2],
      headAttentions = [[[1 / 2, 1 / 2], [1 / 2, 1 / 2]], [[1 / 2, 1 / 2], [1 / 2, 1 / 2]]],
      concatenated = [[2, 3], [2, 3]],
      headProjectedOutputs = Some [[[2, 0], [2, 0]], [[0, 3], [0, 3]]]\<rparr>"

definition ex_result_legacy :: forward_result where
  "ex_result_legacy =
     \<lparr>r_output = [[2, 3], [2, 3]], headOutputs = [ex_trace1, ex_trace2],
      headAttentions = [[[1 / 2, 1 / 2], [1 / 2, 1 / 2]], [[1 / 2, 1 / 2], [1 / 2, 1 / 2]]],
      concatenated = [[2, 3], [2, 3]], headProjectedOutputs = None\<rparr>"

text \<open>A per-head bundle whose second head has no \<open>Wo\<close>, and the engine loaded from it.\<close>

definition ex_mixed_bundle :: weights where
  "ex_mixed_bundle =
     \<lparr>w_heads = Some [ex_head1, ex_head2\<lparr>Wo := None\<rparr>], w_Wo = None, w_bo = None,
      w_config = Some \<lparr>embed_dim = Some 2, num_heads = Some 2, head_dim = Some 1\<rparr>,
      w_model_name = None, modelConfig_isRealModel = None\<rparr>"

definition ex_mixed_engine :: engine where
  "ex_mixed_engine =
     \<lparr>embedDim = 2, numHeads = 2, headDim = 1, temperature = 1,
      heads = [ex_head1, ex_head2\<lparr>Wo := None\<rparr>], this_Wo = None, bo = None,
      isRealModel = True, modelName = Some ''Pre-extracted Model'', useBias = False\<rparr>"

text \<open>
  A run of the random generator (\<open>0.5\<close> except for the third and fourth number,
  \<open>0.75\<close>), the engine \<open>createRandomMHSA(1, 1, 1)\<close> builds from it, and the result of
  \<open>forward\<close> on the one-token sequence \<open>[[1]]\<close>.
\<close>

definition ex_rnd :: "nat \<Rightarrow> real" where
  "ex_rnd i = (if i = 2 \<or> i = 3 then 3 / 4 else 1 / 2)"

definition ex_random_engine :: engine where
  "ex_random_engine =
     \<lparr>embedDim = 1, numHeads = 1, headDim = 1, temperature = 1,
      heads = [\<lparr>Wq = Some [[0]], Wk = Some [[0]], Wv = Some [[1 / 2]], Wo = Some [[1 / 2]],
                bq = None, bk = None, bv = None\<rparr>],
      this_Wo = Some [[0]], bo = None, isRealModel = False,
      modelName = Some ''Random Initialization'', useBias = False\<rparr>"

definition ex_random_result :: forward_result where
  "ex_random_result =
     \<lparr>r_output = [[1 / 4]],
      headOutputs = [\<lparr>ho_Q = [[0]], ho_K = [[0]], ho_V = [[1 / 2]], ho_output = [[1 / 2]],
                      ho_attentionWeights = [[1]], ho_scores = [[0]]\<rparr>],
      headAttentions = [[[1]]], concatenated = [[1 / 2]],
      headProjectedOutputs = Some [[[1 / 4]]]\<rparr>"

section \<open>Facts about the matrix primitives\<close>

lemma foldl_max_Max: "foldl max (s0 :: real) ss = Max (set (s0 # ss))"
proof (induction ss arbitrary: s0)
  case Nil
  show ?case by simp
next
  case (Cons a ss)
  have "foldl max s0 (a # ss) = Max (set (max s0 a # ss))"
    using Cons.IH [of "max s0 a"] by simp
  also have "\<dots> = Max (set (s0 # a # ss))"
    by (cases ss) (simp_all add: max.assoc)
  finally show ?case .
qed

lemma foldl_plus_sum_list: "foldl (+) (a :: real) xs = a + sum_list xs"
  by (induction xs arbitrary: a) simp_all

lemma foldl_acc_sum_list:
  "foldl (\<lambda>s k. s + f k) (a :: real) ks = a + sum_list (map f ks)"
  by (induction ks arbitrary: a) simp_all

lemma softmax_row_length: "length (softmax_row t row) = length row"
  by (cases row) (simp_all add: Let_def)

lemma softmax_row_closed_form:
  assumes "row \<noteq> []"
  shows "softmax_row t row =
           map (\<lambda>s. exp ((s - Max (set row)) / t) /
                     (\<Sum>s' \<leftarrow> row. exp ((s' - Max (set row)) / t))) row"
proof -
  obtain s0 ss where row: "row = s0 # ss"
    using assms by (cases row) auto
  have m: "foldl max s0 ss = Max (set row)"
    unfolding row by (rule foldl_max_Max)
  show ?thesis
    unfolding row softmax_row.simps Let_def foldl_plus_sum_list m [unfolded row]
    by (simp add: o_def)
qed

lemma sum_exp_pos:
  assumes "row \<noteq> []"
  shows "0 < (\<Sum>s' \<leftarrow> row. exp ((s' - m) / t :: real))"
proof -
  obtain s0 ss where row: "row = s0 # ss"
    using assms by (cases row) auto
  have "0 \<le> (\<Sum>s' \<leftarrow> ss. exp ((s' - m) / t))"
    by (rule sum_list_nonneg) auto
  then show ?thesis
    unfolding row by (simp add: add_pos_nonneg)
qed

lemma sum_list_div_const:
  "(\<Sum>x \<leftarrow> xs. f x / (c :: real)) = (\<Sum>x \<leftarrow> xs. f x) / c"
  by (induction xs) (simp_all add: add_divide_distrib)

lemma softmax_row_sum:
  assumes "row \<noteq> []"
  shows "sum_list (softmax_row t row) = 1"
proof -
  let ?Z = "\<Sum>s' \<leftarrow> row. exp ((s' - Max (set row)) / t)"
  have Z: "?Z \<noteq> 0"
    using sum_exp_pos [OF assms, of "Max (set row)" t] by simp
  have "sum_list (softmax_row t row) = (\<Sum>s \<leftarrow> row. exp ((s - Max (set row)) / t) / ?Z)"
    by (simp add: softmax_row_closed_form [OF assms] o_def)
  also have "\<dots> = ?Z / ?Z"
    by (rule sum_list_div_const)
  finally show ?thesis
    using Z by simp
qed

lemma softmax_row_range:
  assumes "row \<noteq> []" and "x \<in> set (softmax_row t row)"
  shows "0 \<le> x \<and> x \<le> 1"
proof -
  let ?m = "Max (set row)"
  let ?Z = "\<Sum>s' \<leftarrow> row. exp ((s' - ?m) / t)"
  have Z: "0 < ?Z"
    by (rule sum_exp_pos [OF assms(1)])
  obtain s where s: "s \<in> set row" and x: "x = exp ((s - ?m) / t) / ?Z"
    using assms(2) unfolding softmax_row_closed_form [OF assms(1)] by auto
  have "exp ((s - ?m) / t) \<le> ?Z"
    using s by (intro member_le_sum_list) auto
  then show ?thesis
    unfolding x using Z by simp
qed

lemma softmax_row_shift:
  "softmax_row t (map (\<lambda>x. x + c) row) = softmax_row t row"
proof (cases row)
  case Nil
  then show ?thesis by simp
next
  case (Cons s0 ss)
  have ne: "row \<noteq> []" "map (\<lambda>x. x + c) row \<noteq> []"
    using Cons by simp_all
  have "Max (set (map (\<lambda>x. x + c) row)) = Max ((\<lambda>x. x + c) ` set row)"
    by simp
  also have "\<dots> = Max (set row) + c"
    using ne(1) by (subst mono_Max_commute [symmetric]) (auto intro: monoI)
  finally have m: "Max (set (map (\<lambda>x. x + c) row)) = Max (set row) + c" .
  show ?thesis
    unfolding softmax_row_closed_form [OF ne(1)] softmax_row_closed_form [OF ne(2)] m
    by (simp add: o_def)
qed

section \<open>Shapes and exceptions in the engine\<close>

lemma then_e_Inr [simp]: "then_e (Inr x) f = f x"
  by (simp add: then_e_def)

lemma then_e_Inl [simp]: "then_e (Inl err) f = Inl err"
  by (simp add: then_e_def)

lemma then_e_eq_Inr: "then_e m f = Inr y \<longleftrightarrow> (\<exists>x. m = Inr x \<and> f x = Inr y)"
  by (cases m) simp_all

lemma is_matrix_rows: "is_matrix r c M \<Longrightarrow> length M = r"
  by (simp add: is_matrix_def)

lemma is_matrix_row: "is_matrix r c M \<Longrightarrow> row \<in> set M \<Longrightarrow> length row = c"
  by (simp add: is_matrix_def list_all_iff)

lemma is_matrix_nth: "is_matrix r c M \<Longrightarrow> i < r \<Longrightarrow> length (M ! i) = c"
  by (simp add: is_matrix_def list_all_length)

lemma is_matrixI: "length M = r \<Longrightarrow> (\<And>row. row \<in> set M \<Longrightarrow> length row = c) \<Longrightarrow> is_matrix r c M"
  by (simp add: is_matrix_def list_all_iff)

lemma matmul_rows: "matmul A B = Inr C \<Longrightarrow> length C = length A"
  by (auto simp: matmul_def Let_def split: list.splits if_splits)

lemma matmul_cols: "matmul A B = Inr C \<Longrightarrow> row \<in> set C \<Longrightarrow> length row = length (hd B)"
  by (auto simp: matmul_def Let_def split: list.splits if_splits)

lemma matmul_nonempty: "matmul A B = Inr C \<Longrightarrow> A \<noteq> [] \<and> B \<noteq> []"
  by (auto simp: matmul_def split: list.splits)

lemma matmul_wf:
  assumes "is_matrix r c A" and "is_matrix c d B" and "0 < r" and "0 < c"
  shows "matmul A B = Inr (map (\<lambda>arow. map (\<lambda>j. dot_row c arow B j) [0..<d]) A)"
proof -
  obtain a0 as where A: "A = a0 # as"
    using assms(1,3) by (cases A) (auto simp: is_matrix_def)
  obtain b0 bs where B: "B = b0 # bs"
    using assms(2,4) by (cases B) (auto simp: is_matrix_def)
  have "length a0 = c" "length b0 = d" "length B = c"
    using assms(1,2) unfolding A B by (simp_all add: is_matrix_def)
  then show ?thesis
    unfolding matmul_def A B by (simp add: Let_def B)
qed

lemma matmul_wf_shape:
  assumes "is_matrix r c A" and "is_matrix c d B" and "0 < r" and "0 < c"
  shows "\<exists>C. matmul A B = Inr C \<and> is_matrix r d C"
  using assms(1) unfolding matmul_wf [OF assms]
  by (simp add: is_matrix_def list_all_iff)

lemma transpose_wf:
  assumes "is_matrix r c A" and "0 < r"
  shows "\<exists>T. transpose_m A = Inr T \<and> is_matrix c r T"
proof -
  obtain a0 as where A: "A = a0 # as"
    using assms by (cases A) (auto simp: is_matrix_def)
  have "length a0 = c" "length A = r"
    using assms(1) unfolding A by (simp_all add: is_matrix_def)
  then show ?thesis
    unfolding transpose_m_def A by (simp add: is_matrix_def list_all_iff A)
qed

lemma linearProjection_rows: "linearProjection X W b = Inr R \<Longrightarrow> length R = length X"
  by (auto simp: linearProjection_def then_e_eq_Inr matmul_opt_def matmul_rows
      split: option.splits if_splits)

lemma linearProjection_wf:
  assumes "is_matrix n edim X" and "is_matrix edim hdim W" and "0 < n" and "0 < edim"
  shows "\<exists>R. linearProjection X (Some W) b = Inr R \<and> is_matrix n hdim R"
proof -
  obtain C where C: "matmul X W = Inr C" "is_matrix n hdim C"
    using matmul_wf_shape [OF assms] by blast
  then show ?thesis
    by (auto simp: linearProjection_def matmul_opt_def is_matrix_def list_all_iff
        split: option.splits)
qed

lemma softmax_wf: "is_matrix r c S \<Longrightarrow> \<exists>R. softmax S t = Inr R \<and> is_matrix r c R"
  by (simp add: softmax_def is_matrix_def list_all_iff softmax_row_length)

lemma sdpa_rows:
  "scaledDotProductAttention e Qm Km Vm = Inr (out, aw, sc) \<Longrightarrow> length out = length Qm"
  by (auto simp: scaledDotProductAttention_def then_e_eq_Inr Let_def softmax_def
      dest!: matmul_rows)

lemma sdpa_wf:
  assumes "is_matrix n hdim Qm" and "is_matrix n hdim Km" and "is_matrix n hdim Vm"
    and "0 < n" and "0 < hdim"
  shows "\<exists>out aw sc. scaledDotProductAttention e Qm Km Vm = Inr (out, aw, sc) \<and>
           is_matrix n hdim out"
proof -
  obtain KT where KT: "transpose_m Km = Inr KT" "is_matrix hdim n KT"
    using transpose_wf [OF assms(2,4)] by blast
  obtain scores where sc: "matmul Qm KT = Inr scores" "is_matrix n n scores"
    using matmul_wf_shape [OF assms(1) KT(2) assms(4,5)] by blast
  let ?scaled = "map (\<lambda>row. map (\<lambda>val. val / sqrt (real (headDim e))) row) scores"
  have "is_matrix n n ?scaled"
    using sc(2) by (simp add: is_matrix_def list_all_iff)
  then obtain aw where aw: "softmax ?scaled (temperature e) = Inr aw" "is_matrix n n aw"
    using softmax_wf by blast
  obtain out where out: "matmul aw Vm = Inr out" "is_matrix n hdim out"
    using matmul_wf_shape [OF aw(2) assms(3,4,4)] by blast
  show ?thesis
    using KT sc aw out by (simp add: scaledDotProductAttention_def Let_def)
qed

lemma head_step_Inr:
  assumes "head_step e X h = Inr (ho, po)"
  shows "length (ho_output ho) = length X"
    and "matmul_opt (ho_output ho) (Wo h) = (case po of None \<Rightarrow> Inl TypeError | Some p \<Rightarrow> Inr p)"
    and "po = None \<longleftrightarrow> Wo h = None"
proof -
  from assms obtain Qm Km Vm out aw sc where
    Qm: "linearProjection X (Wq h) (bq h) = Inr Qm" and
    sd: "scaledDotProductAttention e Qm Km Vm = Inr (out, aw, sc)" and
    pr: "(case Wo h of None \<Rightarrow> Inr None
          | Some W \<Rightarrow> then_e (matmul out W) (\<lambda>projected. Inr (Some projected))) = Inr po" and
    ho: "ho = \<lparr>ho_Q = Qm, ho_K = Km, ho_V = Vm, ho_output = out,
               ho_attentionWeights = aw, ho_scores = sc\<rparr>"
    by (auto simp: head_step_def then_e_eq_Inr split: prod.splits)
  show "length (ho_output ho) = length X"
    using sdpa_rows [OF sd] linearProjection_rows [OF Qm] by (simp add: ho)
  show "matmul_opt (ho_output ho) (Wo h) = (case po of None \<Rightarrow> Inl TypeError | Some p \<Rightarrow> Inr p)"
    using pr by (auto simp: ho matmul_opt_def then_e_eq_Inr split: option.splits)
  show "po = None \<longleftrightarrow> Wo h = None"
    using pr by (auto simp: then_e_eq_Inr split: option.splits)
qed

lemma heads_loop_Inr:
  assumes "heads_loop e X idxs = Inr (hos, projs)"
  shows "length hos = length idxs"
    and "length projs = length (filter (\<lambda>h. Wo (heads e ! h) \<noteq> None) idxs)"
    and "\<forall>h \<in> set idxs. h < length (heads e)"
    and "\<forall>ho \<in> set hos. length (ho_output ho) = length X"
    and "\<forall>p \<in> set projs. length p = length X"
  using assms
proof (induction idxs arbitrary: hos projs)
  case Nil
  {
    case 1 then show ?case by simp
  next
    case 2 then show ?case by simp
  next
    case 3 then show ?case by simp
  next
    case 4 then show ?case by simp
  next
    case 5 then show ?case by simp
  }
next
  case (Cons h idxs)
  {
    fix hos projs
    assume a: "heads_loop e X (h # idxs) = Inr (hos, projs)"
    then have lt: "h < length (heads e)"
      by (simp split: if_splits)
    from a lt obtain ho po hos' projs' where
      st: "head_step e X (heads e ! h) = Inr (ho, po)" and
      rest: "heads_loop e X idxs = Inr (hos', projs')" and
      hos: "hos = ho # hos'" and
      projs: "projs = (case po of None \<Rightarrow> projs' | Some p \<Rightarrow> p # projs')"
      by (auto simp: then_e_eq_Inr split: prod.splits)
    note st' = head_step_Inr [OF st]
    have plen: "\<And>p. po = Some p \<Longrightarrow> length p = length X"
      using st'(1,2) by (auto simp: matmul_opt_def dest: matmul_rows split: option.splits)
    have "length hos = length (h # idxs) \<and>
          length projs = length (filter (\<lambda>h. Wo (heads e ! h) \<noteq> None) (h # idxs)) \<and>
          (\<forall>h \<in> set (h # idxs). h < length (heads e)) \<and>
          (\<forall>ho \<in> set hos. length (ho_output ho) = length X) \<and>
          (\<forall>p \<in> set projs. length p = length X)"
      using Cons.IH [OF rest] lt st'(1,3) plen unfolding hos projs
      by (cases po) auto
  }
  note step = this
  {
    case 1 then show ?case using step by blast
  next
    case 2 then show ?case using step by blast
  next
    case 3 then show ?case using step by blast
  next
    case 4 then show ?case using step by blast
  next
    case 5 then show ?case using step by blast
  }
qed


lemma heads_loop_proj_cols:
  assumes "heads_loop e X idxs = Inr (hos, projs)"
    and "\<forall>h \<in> set idxs. \<forall>W. Wo (heads e ! h) = Some W \<longrightarrow> length (hd W) = c"
  shows "\<forall>p \<in> set projs. \<forall>row \<in> set p. length row = c"
  using assms
proof (induction idxs arbitrary: hos projs)
  case Nil
  then show ?case by simp
next
  case (Cons h idxs)
  from Cons.prems(1) have lt: "h < length (heads e)"
    by (simp split: if_splits)
  from Cons.prems(1) lt obtain ho po hos' projs' where
    st: "head_step e X (heads e ! h) = Inr (ho, po)" and
    rest: "heads_loop e X idxs = Inr (hos', projs')" and
    projs: "projs = (case po of None \<Rightarrow> projs' | Some p \<Rightarrow> p # projs')"
    by (auto simp: then_e_eq_Inr split: prod.splits)
  have IH: "\<forall>p \<in> set projs'. \<forall>row \<in> set p. length row = c"
    using Cons.IH [OF rest] Cons.prems(2) by simp
  show ?case
  proof (cases po)
    case None
    then show ?thesis using IH projs by simp
  next
    case (Some p)
    then obtain W where W: "Wo (heads e ! h) = Some W" "matmul (ho_output ho) W = Inr p"
      using head_step_Inr(2,3) [OF st] by (auto simp: matmul_opt_def split: option.splits)
    have "length (hd W) = c"
      using Cons.prems(2) W(1) by simp
    then have "\<forall>row \<in> set p. length row = c"
      using matmul_cols [OF W(2)] by simp
    then show ?thesis using IH projs Some by simp
  qed
qed

lemma heads_loop_sequence:
  assumes "heads_loop e X idxs = Inr (hos, projs)"
    and "\<forall>h \<in> set idxs. Wo (heads e ! h) \<noteq> None"
  shows "sequence_e (map2 (\<lambda>out h. matmul_opt out (Wo h)) (map ho_output hos)
            (map (\<lambda>h. heads e ! h) idxs)) = Inr projs"
  using assms
proof (induction idxs arbitrary: hos projs)
  case Nil
  then show ?case by simp
next
  case (Cons h idxs)
  from Cons.prems(1) have lt: "h < length (heads e)"
    by (simp split: if_splits)
  from Cons.prems(1) lt obtain ho po hos' projs' where
    st: "head_step e X (heads e ! h) = Inr (ho, po)" and
    rest: "heads_loop e X idxs = Inr (hos', projs')" and
    hos: "hos = ho # hos'" and
    projs: "projs = (case po of None \<Rightarrow> projs' | Some p \<Rightarrow> p # projs')"
    by (auto simp: then_e_eq_Inr split: prod.splits)
  obtain p where po: "po = Some p"
    using head_step_Inr(3) [OF st] Cons.prems(2) by (cases po) auto
  have "matmul_opt (ho_output ho) (Wo (heads e ! h)) = Inr p"
    using head_step_Inr(2) [OF st] po by simp
  moreover have "sequence_e (map2 (\<lambda>out h. matmul_opt out (Wo h)) (map ho_output hos')
            (map (\<lambda>h. heads e ! h) idxs)) = Inr projs'"
    using Cons.IH [OF rest] Cons.prems(2) by simp
  ultimately show ?case
    by (simp add: hos projs po)
qed

lemma add_row_wf:
  "length frow = n \<Longrightarrow> length grow = n \<Longrightarrow> add_row n frow (elem grow) = map2 (+) frow grow"
  by (auto simp: add_row_def elem_def intro!: nth_equalityI)

lemma add_into_wf:
  assumes "is_matrix n c F" and "is_matrix n c P"
  shows "add_into n c F P = mat_add F P"
  using assms
  by (auto simp: add_into_def mat_add_def is_matrix_def list_all_length add_row_wf
      intro!: nth_equalityI)

lemma mat_add_wf:
  assumes "is_matrix n c F" and "is_matrix n c P"
  shows "is_matrix n c (mat_add F P)"
  using assms
  by (auto simp: mat_add_def is_matrix_def list_all_length)

lemma mat_add_zeros: "is_matrix n c P \<Longrightarrow> mat_add (zeros n c) P = P"
  by (auto simp: mat_add_def zeros_def is_matrix_def list_all_length intro!: nth_equalityI)

lemma foldl_add_into_wf:
  assumes "is_matrix n c F" and "\<forall>P \<in> set Ps. is_matrix n c P"
  shows "foldl (add_into n c) F Ps = foldl mat_add F Ps \<and> is_matrix n c (foldl mat_add F Ps)"
  using assms
proof (induction Ps arbitrary: F)
  case Nil
  then show ?case by simp
next
  case (Cons P Ps)
  have "is_matrix n c (mat_add F P)"
    using Cons.prems by (simp add: mat_add_wf)
  then show ?case
    using Cons.IH [of "mat_add F P"] Cons.prems by (simp add: add_into_wf)
qed

lemma add_bias_into_wf:
  assumes "is_matrix n c F" and "length b = c"
  shows "add_bias_into n c F b = add_to_rows b F"
  using assms
  by (auto simp: add_bias_into_def add_to_rows_def is_matrix_def list_all_length add_row_wf
      intro!: nth_equalityI)

lemma add_to_rows_wf:
  assumes "is_matrix n c F" and "length b = c"
  shows "is_matrix n c (add_to_rows b F)"
  using assms by (auto simp: add_to_rows_def is_matrix_def list_all_iff)

lemma concat_rows_horizontal:
  assumes "hos \<noteq> []" and "length (ho_output (hd hos)) = n"
  shows "concat_rows n hos = concatHorizontal (map ho_output hos)"
  using assms by (cases hos) (simp_all add: concat_rows_def concatHorizontal_def o_def)

lemma forward_Inr:
  assumes "forward e X = Inr r"
  obtains projs where
    "heads_loop e X [0..<numHeads e] = Inr (headOutputs r, projs)"
    "length projs = numHeads e \<Longrightarrow> projs \<noteq> [] \<and>
       r_output r =
         (let summed = foldl (add_into (length X) (embedDim e)) (hd projs) (tl projs)
          in case bo e of None \<Rightarrow> summed
             | Some b \<Rightarrow> if 0 < length b then add_bias_into (length X) (embedDim e) summed b
                         else summed)"
    "length projs \<noteq> numHeads e \<Longrightarrow>
       matmul_opt (concat_rows (length X) (headOutputs r)) (this_Wo e) = Inr (r_output r)"
proof -
  from assms obtain hos projs where
    hl: "heads_loop e X [0..<numHeads e] = Inr (hos, projs)" and
    rest: "(if length projs = numHeads e
        then (case projs of
                [] \<Rightarrow> Inl TypeError
              | p0 # ps \<Rightarrow>
                  (let summed = foldl (add_into (length X) (embedDim e)) p0 ps;
                       finalOutput =
                         (case bo e of
                            None \<Rightarrow> summed
                          | Some b \<Rightarrow>
                              if 0 < length b then add_bias_into (length X) (embedDim e) summed b
                              else summed)
                   in Inr \<lparr>r_output = finalOutput, headOutputs = hos,
                           headAttentions = map ho_attentionWeights hos,
                           concatenated = concat_rows (length X) hos,
                           headProjectedOutputs = Some projs\<rparr>))
        else then_e (matmul_opt (concat_rows (length X) hos) (this_Wo e)) (\<lambda>finalOutput.
               Inr \<lparr>r_output = finalOutput, headOutputs = hos,
                     headAttentions = map ho_attentionWeights hos,
                     concatenated = concat_rows (length X) hos,
                     headProjectedOutputs = (if projs = [] then None else Some projs)\<rparr>)) = Inr r"
    by (auto simp: forward_def Let_def then_e_eq_Inr split: prod.splits)
  have hos: "headOutputs r = hos"
    using rest by (auto simp: Let_def then_e_eq_Inr split: if_splits list.splits)
  show thesis
  proof (rule that [of projs])
    show "heads_loop e X [0..<numHeads e] = Inr (headOutputs r, projs)"
      using hl hos by simp
    show "projs \<noteq> [] \<and>
       r_output r =
         (let summed = foldl (add_into (length X) (embedDim e)) (hd projs) (tl projs)
          in case bo e of None \<Rightarrow> summed
             | Some b \<Rightarrow> if 0 < length b then add_bias_into (length X) (embedDim e) summed b
                         else summed)" if "length projs = numHeads e"
      using rest that by (cases projs) (auto simp: Let_def)
    show "matmul_opt (concat_rows (length X) (headOutputs r)) (this_Wo e) = Inr (r_output r)"
      if "length projs \<noteq> numHeads e"
      using rest that by (auto simp: then_e_eq_Inr)
  qed
qed


lemma wf_engine_head_Wo:
  assumes "wf_engine e" and "h < numHeads e" and "Wo (heads e ! h) = Some W"
  shows "is_matrix (headDim e) (embedDim e) W" and "length (hd W) = embedDim e"
proof -
  have "wf_head (embedDim e) (headDim e) (heads e ! h)"
    using assms(1,2) by (simp add: wf_engine_def list_all_length)
  then show m: "is_matrix (headDim e) (embedDim e) W"
    using assms(3) by (simp add: wf_head_def opt_matrix_def)
  have "W \<noteq> []"
    using m assms(1) by (auto simp: is_matrix_def wf_engine_def)
  then show "length (hd W) = embedDim e"
    using m by (simp add: is_matrix_row)
qed

lemma forward_merge_per_head:
  assumes wf: "wf_engine e" and fw: "forward e X = Inr r"
    and allWo: "list_all (\<lambda>h. Wo h \<noteq> None) (heads e)"
  shows "Inr (r_output r) = merge_per_head e (length X) (map ho_output (headOutputs r))"
proof -
  let ?n = "length X" and ?c = "embedDim e" and ?idxs = "[0..<numHeads e]"
  have len: "length (heads e) = numHeads e" and pos: "0 < numHeads e" "0 < embedDim e"
    using wf by (simp_all add: wf_engine_def)
  obtain projs where
    hl: "heads_loop e X ?idxs = Inr (headOutputs r, projs)" and
    sum: "length projs = numHeads e \<Longrightarrow> projs \<noteq> [] \<and>
       r_output r =
         (let summed = foldl (add_into ?n ?c) (hd projs) (tl projs)
          in case bo e of None \<Rightarrow> summed
             | Some b \<Rightarrow> if 0 < length b then add_bias_into ?n ?c summed b else summed)"
    by (rule forward_Inr [OF fw]) blast
  have every: "\<forall>h \<in> set ?idxs. Wo (heads e ! h) \<noteq> None"
    using allWo len by (simp add: list_all_length)
  then have "filter (\<lambda>h. Wo (heads e ! h) \<noteq> None) ?idxs = ?idxs"
    by (simp add: filter_id_conv)
  then have "length projs = numHeads e"
    using heads_loop_Inr(2) [OF hl] by simp
  note s = sum [OF this]
  have "\<forall>P \<in> set projs. \<forall>row \<in> set P. length row = ?c"
    using wf_engine_head_Wo(2) [OF wf] by (intro heads_loop_proj_cols [OF hl]) simp
  then have shapes: "\<forall>P \<in> set projs. is_matrix ?n ?c P"
    using heads_loop_Inr(5) [OF hl] by (simp add: is_matrix_def list_all_iff)
  obtain p0 ps where projs: "projs = p0 # ps"
    using s by (cases projs) auto
  have p0: "is_matrix ?n ?c p0" and ps: "\<forall>P \<in> set ps. is_matrix ?n ?c P"
    using shapes projs by simp_all
  let ?acc = "foldl mat_add (zeros ?n ?c) projs"
  have acc: "foldl (add_into ?n ?c) p0 ps = ?acc" "is_matrix ?n ?c ?acc"
    using foldl_add_into_wf [OF p0 ps] by (simp_all add: projs mat_add_zeros [OF p0])
  have out: "r_output r = (case bo e of None \<Rightarrow> ?acc | Some b \<Rightarrow> add_to_rows b ?acc)"
  proof (cases "bo e")
    case None
    then show ?thesis using s acc by (simp add: projs)
  next
    case (Some b)
    then have "length b = ?c"
      using wf by (simp add: wf_engine_def opt_vec_def)
    then show ?thesis
      using s acc pos Some by (simp add: projs add_bias_into_wf)
  qed
  have "map (\<lambda>h. heads e ! h) ?idxs = heads e"
    using len map_nth [of "heads e"] by simp
  then have "sequence_e (map2 (\<lambda>out h. matmul_opt out (Wo h)) (map ho_output (headOutputs r))
               (heads e)) = Inr projs"
    using heads_loop_sequence [OF hl every] by simp
  then show ?thesis
    by (simp add: merge_per_head_def out Let_def)
qed

lemma forward_merge_concat:
  assumes wf: "wf_engine e" and fw: "forward e X = Inr r"
    and notall: "\<not> list_all (\<lambda>h. Wo h \<noteq> None) (heads e)"
  shows "Inr (r_output r) = merge_concat e (map ho_output (headOutputs r))"
proof -
  let ?n = "length X" and ?idxs = "[0..<numHeads e]"
  have len: "length (heads e) = numHeads e" and pos: "0 < numHeads e"
    using wf by (simp_all add: wf_engine_def)
  obtain projs where
    hl: "heads_loop e X ?idxs = Inr (headOutputs r, projs)" and
    cc: "length projs \<noteq> numHeads e \<Longrightarrow>
       matmul_opt (concat_rows ?n (headOutputs r)) (this_Wo e) = Inr (r_output r)"
    by (rule forward_Inr [OF fw]) blast
  obtain h where h: "h < numHeads e" "Wo (heads e ! h) = None"
    using notall len by (auto simp: list_all_length)
  then have "filter (\<lambda>h. Wo (heads e ! h) \<noteq> None) ?idxs \<noteq> ?idxs"
    by (auto simp: filter_id_conv)
  then have "length (filter (\<lambda>h. Wo (heads e ! h) \<noteq> None) ?idxs) \<noteq> length ?idxs"
    by (metis filter_True length_filter_less less_irrefl_nat)
  then have "length projs \<noteq> numHeads e"
    using heads_loop_Inr(2) [OF hl] by simp
  note m = cc [OF this]
  have "headOutputs r \<noteq> []"
    using heads_loop_Inr(1) [OF hl] pos by auto
  moreover from this have "length (ho_output (hd (headOutputs r))) = ?n"
    using heads_loop_Inr(4) [OF hl] by simp
  ultimately have "concat_rows ?n (headOutputs r) = concatHorizontal (map ho_output (headOutputs r))"
    by (rule concat_rows_horizontal)
  then show ?thesis
    using m by (simp add: merge_concat_def)
qed

lemma head_step_wf:
  assumes "wf_head edim hdim h" and "is_matrix n edim X" and "0 < n" and "0 < edim" and "0 < hdim"
  shows "\<exists>ho po. head_step e X h = Inr (ho, po) \<and> is_matrix n hdim (ho_output ho)"
proof -
  from assms(1) obtain wq wk wv where
    w: "Wq h = Some wq" "Wk h = Some wk" "Wv h = Some wv"
       "is_matrix edim hdim wq" "is_matrix edim hdim wk" "is_matrix edim hdim wv"
    by (auto simp: wf_head_def has_matrix_def split: option.splits)
  obtain Qm where Qm: "linearProjection X (Wq h) (bq h) = Inr Qm" "is_matrix n hdim Qm"
    using linearProjection_wf [OF assms(2) w(4) assms(3,4)] w(1) by metis
  obtain Km where Km: "linearProjection X (Wk h) (bk h) = Inr Km" "is_matrix n hdim Km"
    using linearProjection_wf [OF assms(2) w(5) assms(3,4)] w(2) by metis
  obtain Vm where Vm: "linearProjection X (Wv h) (bv h) = Inr Vm" "is_matrix n hdim Vm"
    using linearProjection_wf [OF assms(2) w(6) assms(3,4)] w(3) by metis
  obtain out aw sc where
    sd: "scaledDotProductAttention e Qm Km Vm = Inr (out, aw, sc)" "is_matrix n hdim out"
    using sdpa_wf [OF Qm(2) Km(2) Vm(2) assms(3,5)] by blast
  have "\<exists>po. (case Wo h of None \<Rightarrow> Inr None
          | Some W \<Rightarrow> then_e (matmul out W) (\<lambda>projected. Inr (Some projected))) = Inr po"
  proof (cases "Wo h")
    case None
    then show ?thesis by simp
  next
    case (Some W)
    then have "is_matrix hdim edim W"
      using assms(1) by (simp add: wf_head_def opt_matrix_def)
    then obtain P where "matmul out W = Inr P"
      using matmul_wf_shape [OF sd(2) _ assms(3,5)] by blast
    then show ?thesis using Some by simp
  qed
  then obtain po where "(case Wo h of None \<Rightarrow> Inr None
          | Some W \<Rightarrow> then_e (matmul out W) (\<lambda>projected. Inr (Some projected))) = Inr po" ..
  then show ?thesis
    using Qm Km Vm sd by (simp add: head_step_def)
qed

lemma heads_loop_wf:
  assumes "\<forall>h \<in> set idxs. h < length (heads e) \<and> wf_head edim hdim (heads e ! h)"
    and "is_matrix n edim X" and "0 < n" and "0 < edim" and "0 < hdim"
  shows "\<exists>hos projs. heads_loop e X idxs = Inr (hos, projs) \<and>
           (\<forall>ho \<in> set hos. is_matrix n hdim (ho_output ho))"
  using assms(1)
proof (induction idxs)
  case Nil
  then show ?case by simp
next
  case (Cons h idxs)
  then obtain hos projs where
    rest: "heads_loop e X idxs = Inr (hos, projs)" "\<forall>ho \<in> set hos. is_matrix n hdim (ho_output ho)"
    by auto
  have "wf_head edim hdim (heads e ! h)" and lt: "h < length (heads e)"
    using Cons.prems by simp_all
  then obtain ho po where
    st: "head_step e X (heads e ! h) = Inr (ho, po)" "is_matrix n hdim (ho_output ho)"
    using head_step_wf [OF _ assms(2-5)] by blast
  show ?case
    using rest st lt by simp
qed

lemma length_concat_const:
  "\<forall>x \<in> set xs. length (f x) = k \<Longrightarrow> length (concat (map f xs)) = length xs * k"
  by (induction xs) simp_all

lemma concat_rows_wf:
  assumes "\<forall>ho \<in> set hos. is_matrix n hdim (ho_output ho)"
  shows "is_matrix n (length hos * hdim) (concat_rows n hos)"
  using assms
  by (auto simp: concat_rows_def is_matrix_def list_all_iff list_all_length
      intro!: length_concat_const)

lemma forward_wf_succeeds:
  assumes wf: "wf_engine e" and X: "is_matrix n (embedDim e) X" and n: "0 < n"
  shows "\<exists>r. forward e X = Inr r"
proof -
  let ?idxs = "[0..<numHeads e]"
  have len: "length (heads e) = numHeads e" and
    pos: "0 < numHeads e" "0 < embedDim e" "0 < headDim e"
    using wf by (simp_all add: wf_engine_def)
  have "\<forall>h \<in> set ?idxs. h < length (heads e) \<and> wf_head (embedDim e) (headDim e) (heads e ! h)"
    using wf by (simp add: wf_engine_def list_all_length)
  then obtain hos projs where
    hl: "heads_loop e X ?idxs = Inr (hos, projs)" and
    shapes: "\<forall>ho \<in> set hos. is_matrix n (headDim e) (ho_output ho)"
    using heads_loop_wf [OF _ X n pos(2,3)] by blast
  have nX: "length X = n"
    using X by (rule is_matrix_rows)
  show ?thesis
  proof (cases "length projs = numHeads e")
    case True
    then obtain p0 ps where "projs = p0 # ps"
      using pos(1) by (cases projs) auto
    then show ?thesis
      using hl True by (simp add: forward_def Let_def)
  next
    case False
    then have "filter (\<lambda>h. Wo (heads e ! h) \<noteq> None) ?idxs \<noteq> ?idxs"
      using heads_loop_Inr(2) [OF hl] by auto
    then have "\<not> list_all (\<lambda>h. Wo h \<noteq> None) (heads e)"
      using len by (auto simp: filter_id_conv list_all_length)
    then obtain W where W: "this_Wo e = Some W" "is_matrix (numHeads e * headDim e) (embedDim e) W"
      using wf by (auto simp: wf_engine_def opt_matrix_def)
    have "length hos = numHeads e"
      using heads_loop_Inr(1) [OF hl] by simp
    then have "is_matrix n (numHeads e * headDim e) (concat_rows n hos)"
      using concat_rows_wf [OF shapes] by simp
    then obtain C where "matmul (concat_rows n hos) W = Inr C"
      using matmul_wf_shape [OF _ W(2) n] pos by fastforce
    then show ?thesis
      using hl False W(1) by (simp add: forward_def Let_def nX matmul_opt_def)
  qed
qed

lemma forward_output_shape:
  assumes wf: "wf_engine e" and fw: "forward e X = Inr r"
  shows "is_matrix (length X) (embedDim e) (r_output r)"
proof -
  let ?n = "length X" and ?c = "embedDim e" and ?idxs = "[0..<numHeads e]"
  obtain projs where
    hl: "heads_loop e X ?idxs = Inr (headOutputs r, projs)" and
    sum: "length projs = numHeads e \<Longrightarrow> projs \<noteq> [] \<and>
       r_output r =
         (let summed = foldl (add_into ?n ?c) (hd projs) (tl projs)
          in case bo e of None \<Rightarrow> summed
             | Some b \<Rightarrow> if 0 < length b then add_bias_into ?n ?c summed b else summed)" and
    cc: "length projs \<noteq> numHeads e \<Longrightarrow>
       matmul_opt (concat_rows ?n (headOutputs r)) (this_Wo e) = Inr (r_output r)"
    by (rule forward_Inr [OF fw]) blast
  show ?thesis
  proof (cases "length projs = numHeads e")
    case True
    note s = sum [OF True]
    have "\<forall>P \<in> set projs. \<forall>row \<in> set P. length row = ?c"
      using wf_engine_head_Wo(2) [OF wf] by (intro heads_loop_proj_cols [OF hl]) simp
    then have shapes: "\<forall>P \<in> set projs. is_matrix ?n ?c P"
      using heads_loop_Inr(5) [OF hl] by (simp add: is_matrix_def list_all_iff)
    obtain p0 ps where projs: "projs = p0 # ps"
      using s by (cases projs) auto
    have p0: "is_matrix ?n ?c p0" and ps: "\<forall>P \<in> set ps. is_matrix ?n ?c P"
      using shapes projs by simp_all
    note acc = foldl_add_into_wf [OF p0 ps]
    show ?thesis
    proof (cases "bo e")
      case None
      then show ?thesis using s acc by (simp add: projs Let_def)
    next
      case (Some b)
      then have "length b = ?c"
        using wf by (simp add: wf_engine_def opt_vec_def)
      then show ?thesis
        using s acc Some by (auto simp: projs Let_def add_bias_into_wf add_to_rows_wf)
    qed
  next
    case False
    from cc [OF False] obtain W where
      W: "this_Wo e = Some W" "matmul (concat_rows ?n (headOutputs r)) W = Inr (r_output r)"
      by (auto simp: matmul_opt_def split: option.splits)
    have "is_matrix (numHeads e * headDim e) ?c W" and "0 < numHeads e * headDim e"
      using wf W(1) by (simp_all add: wf_engine_def opt_matrix_def)
    then have "length (hd W) = ?c"
      by (cases W) (auto simp: is_matrix_def)
    then show ?thesis
      using matmul_rows [OF W(2)] matmul_cols [OF W(2)]
      by (simp add: is_matrix_def list_all_iff concat_rows_def)
  qed
qed

section \<open>Concatenate-then-project against project-then-sum\<close>

lemma dot_row_sum: "dot_row c arow B j = (\<Sum>k \<leftarrow> [0..<c]. elem arow k * elem (B ! k) j)"
  by (simp add: dot_row_def foldl_acc_sum_list)

lemma sum_list_upt_add:
  "(\<Sum>k \<leftarrow> [0..<a + m]. f k :: real) = (\<Sum>k \<leftarrow> [0..<a]. f k) + (\<Sum>k \<leftarrow> [0..<m]. f (a + k))"
proof -
  have "[0..<a + m] = [0..<a] @ [a..<a + m]"
    using upt_add_eq_append [of 0 a m] by simp
  moreover have "[a..<a + m] = map (\<lambda>k. a + k) [0..<m]"
    using map_add_upt [of a m] by (simp add: add.commute)
  ultimately show ?thesis
    by (simp add: o_def)
qed

lemma dot_row_append:
  assumes "length r = length B"
  shows "dot_row (length B + m) (r @ s) (B @ W) j = dot_row (length B) r B j + dot_row m s W j"
proof -
  have 1: "(\<Sum>k \<leftarrow> [0..<length B]. elem (r @ s) k * elem ((B @ W) ! k) j) =
           (\<Sum>k \<leftarrow> [0..<length B]. elem r k * elem (B ! k) j)"
    using assms by (intro arg_cong [where f = sum_list] map_cong refl) (simp add: elem_def nth_append)
  have 2: "(\<Sum>k \<leftarrow> [0..<m]. elem (r @ s) (length B + k) * elem ((B @ W) ! (length B + k)) j) =
           (\<Sum>k \<leftarrow> [0..<m]. elem s k * elem (W ! k) j)"
    using assms by (intro arg_cong [where f = sum_list] map_cong refl) (simp add: elem_def nth_append)
  show ?thesis
    unfolding dot_row_sum sum_list_upt_add 1 2 ..
qed

lemma prodM_append:
  assumes R: "is_matrix n (length B) R" and S: "length S = n"
  shows "prodM (length B + m) d (map2 (@) R S) (B @ W) = mat_add (prodM (length B) d R B) (prodM m d S W)"
proof (rule nth_equalityI)
  show "length (prodM (length B + m) d (map2 (@) R S) (B @ W)) =
        length (mat_add (prodM (length B) d R B) (prodM m d S W))"
    using R S by (simp add: prodM_def mat_add_def is_matrix_def)
next
  fix i
  assume "i < length (prodM (length B + m) d (map2 (@) R S) (B @ W))"
  then have i: "i < n"
    using R S by (simp add: prodM_def is_matrix_def)
  have Ri: "length (R ! i) = length B"
    using R i by (rule is_matrix_nth)
  have len: "length R = n"
    using R by (rule is_matrix_rows)
  have "prodM (length B + m) d (map2 (@) R S) (B @ W) ! i =
        map (\<lambda>j. dot_row (length B + m) (R ! i @ S ! i) (B @ W) j) [0..<d]"
    using i len S by (simp add: prodM_def)
  also have "\<dots> = map (\<lambda>j. dot_row (length B) (R ! i) B j + dot_row m (S ! i) W j) [0..<d]"
    by (simp add: dot_row_append [OF Ri])
  also have "\<dots> = mat_add (prodM (length B) d R B) (prodM m d S W) ! i"
    using i len S by (simp add: prodM_def mat_add_def) (rule nth_equalityI, simp_all)
  finally show "prodM (length B + m) d (map2 (@) R S) (B @ W) ! i =
        mat_add (prodM (length B) d R B) (prodM m d S W) ! i" .
qed


lemma rowsH_wf:
  assumes "\<forall>M \<in> set Ms. is_matrix n c M"
  shows "is_matrix n (length Ms * c) (rowsH n Ms)"
  using assms
  by (auto simp: rowsH_def is_matrix_def list_all_iff list_all_length intro!: length_concat_const)

lemma rowsH_snoc:
  assumes "length M = n"
  shows "rowsH n (Ms @ [M]) = map2 (@) (rowsH n Ms) M"
  using assms by (auto simp: rowsH_def intro!: nth_equalityI)

lemma prodM_rowsH:
  assumes "\<forall>(M, W) \<in> set ps. is_matrix n hdim M \<and> is_matrix hdim d W"
  shows "prodM (length ps * hdim) d (rowsH n (map fst ps)) (concat (map snd ps)) =
           foldl mat_add (zeros n d) (map (\<lambda>(M, W). prodM hdim d M W) ps)"
  using assms
proof (induction ps rule: rev_induct)
  case Nil
  show ?case
    by (simp add: prodM_def rowsH_def zeros_def dot_row_def map_replicate_const o_def)
next
  case (snoc p ps)
  obtain M W where p: "p = (M, W)"
    by (cases p)
  let ?B = "concat (map snd ps)" and ?R = "rowsH n (map fst ps)"
  have M: "is_matrix n hdim M" and W: "is_matrix hdim d W"
    using snoc.prems p by simp_all
  have "\<forall>V \<in> set (map snd ps). length V = hdim"
    using snoc.prems by (auto simp: is_matrix_def)
  then have B: "length ?B = length ps * hdim"
    using length_concat_const [of "map snd ps" "\<lambda>V. V" hdim] by simp
  have "\<forall>M \<in> set (map fst ps). is_matrix n hdim M"
    using snoc.prems by auto
  then have R: "is_matrix n (length ?B) ?R"
    using rowsH_wf [of "map fst ps" n hdim] B by simp
  have IH: "prodM (length ?B) d ?R ?B = foldl mat_add (zeros n d) (map (\<lambda>(M, W). prodM hdim d M W) ps)"
    using snoc.IH snoc.prems B by simp
  have "prodM (length (ps @ [p]) * hdim) d (rowsH n (map fst (ps @ [p]))) (concat (map snd (ps @ [p]))) =
        prodM (length ?B + hdim) d (map2 (@) ?R M) (?B @ W)"
    using M by (simp add: p B rowsH_snoc is_matrix_rows add.commute)
  also have "\<dots> = mat_add (prodM (length ?B) d ?R ?B) (prodM hdim d M W)"
    using R M by (intro prodM_append) (simp_all add: is_matrix_rows)
  finally show ?case
    by (simp add: IH p)
qed

lemma matmul_prodM:
  assumes "is_matrix r c A" and "is_matrix c d B" and "0 < r" and "0 < c"
  shows "matmul A B = Inr (prodM c d A B)"
  unfolding prodM_def by (rule matmul_wf [OF assms])

lemma sequence_matmul_prodM:
  assumes "\<forall>(M, W) \<in> set ps. is_matrix n hdim M \<and> is_matrix hdim d W" and "0 < n" and "0 < hdim"
  shows "sequence_e (map (\<lambda>(M, W). matmul M W) ps) = Inr (map (\<lambda>(M, W). prodM hdim d M W) ps)"
  using assms(1)
proof (induction ps)
  case Nil
  show ?case by simp
next
  case (Cons p ps)
  obtain M W where p: "p = (M, W)"
    by (cases p)
  have "matmul M W = Inr (prodM hdim d M W)"
    using Cons.prems p assms(2,3) by (intro matmul_prodM [where r = n]) simp_all
  then show ?case
    using Cons by (simp add: p)
qed

lemma concat_project_is_project_sum:
  assumes shapes: "\<forall>(M, W) \<in> set ps. is_matrix n hdim M \<and> is_matrix hdim d W"
    and pos: "0 < n" "0 < hdim" "ps \<noteq> []"
  shows "\<exists>contribs. sequence_e (map (\<lambda>(M, W). matmul M W) ps) = Inr contribs \<and>
           matmul (concatHorizontal (map fst ps)) (concat (map snd ps)) =
             Inr (foldl mat_add (zeros n d) contribs)"
proof -
  let ?B = "concat (map snd ps)"
  have "\<forall>V \<in> set (map snd ps). length V = hdim"
    using shapes by (auto simp: is_matrix_def)
  then have B: "length ?B = length ps * hdim"
    using length_concat_const [of "map snd ps" "\<lambda>V. V" hdim] by simp
  have "\<forall>V \<in> set (map snd ps). list_all (\<lambda>row. length row = d) V"
    using shapes by (auto simp: is_matrix_def)
  then have "list_all (\<lambda>row. length row = d) ?B"
    by (auto simp: list_all_iff)
  then have Bm: "is_matrix (length ps * hdim) d ?B"
    using B by (simp add: is_matrix_def)
  have fst: "\<forall>M \<in> set (map fst ps). is_matrix n hdim M"
    using shapes by auto
  then have "length (hd (map fst ps)) = n"
    using pos(3) by (cases ps) (auto simp: is_matrix_def)
  then have H: "concatHorizontal (map fst ps) = rowsH n (map fst ps)"
    using pos(3) by (cases ps) (simp_all add: concatHorizontal_def rowsH_def)
  have "is_matrix n (length ps * hdim) (rowsH n (map fst ps))"
    using rowsH_wf [OF fst] by simp
  then have "matmul (rowsH n (map fst ps)) ?B =
        Inr (prodM (length ps * hdim) d (rowsH n (map fst ps)) ?B)"
    using Bm pos by (intro matmul_prodM [where r = n]) simp_all
  then show ?thesis
    using sequence_matmul_prodM [OF shapes pos(1,2)] prodM_rowsH [OF shapes] H by simp
qed

lemma copy_head_id: "copy_head h = h"
  by (simp add: copy_head_def)

lemma map_copy_head: "map copy_head hs = hs"
  by (induction hs) (simp_all add: copy_head_id)

lemma first_Wq_wf:
  assumes "hs \<noteq> []" and "wf_head edim hdim (hd hs)" and "0 < edim"
  shows "first_Wq_cols hs = Inr hdim" and "first_Wq_rows hs = Inr edim"
proof -
  obtain h0 rest where hs: "hs = h0 # rest"
    using assms(1) by (cases hs) auto
  obtain wq where wq: "Wq h0 = Some wq" "is_matrix edim hdim wq"
    using assms(2) hs by (auto simp: wf_head_def has_matrix_def split: option.splits)
  then obtain row0 rows where rows: "wq = row0 # rows" "length row0 = hdim"
    using assms(3) by (cases wq) (auto simp: is_matrix_def)
  show "first_Wq_cols hs = Inr hdim"
    by (simp add: first_Wq_cols_def first_Wq_def hs wq rows)
  show "first_Wq_rows hs = Inr edim"
    using wq(2) by (simp add: first_Wq_rows_def first_Wq_def hs wq is_matrix_def)
qed

lemma num_or_agrees: "dim_agrees c v \<Longrightarrow> alt = Inr v \<Longrightarrow> num_or c alt = Inr v"
  by (auto simp: dim_agrees_def num_or_def)

lemma loadRealWeights_wf:
  assumes "w_heads wl = Some hs" and "w_Wo wl = Some W"
    and "hs \<noteq> []" and "wf_head edim hdim (hd hs)" and "0 < edim"
  shows "loadRealWeights e0 (Some wl) name =
           (None, e0\<lparr>numHeads := length hs, headDim := hdim, embedDim := edim, heads := hs,
                      this_Wo := Some W, bo := w_bo wl, isRealModel := True, modelName := name,
                      useBias := (bq (hd hs) \<noteq> None)\<rparr>)"
  using assms(1,2) first_Wq_wf [OF assms(3-5)]
  by (simp add: loadRealWeights_def Let_def map_copy_head)

lemma loadPreExtractedWeights_wf:
  assumes "w_heads wp = Some hs" and "config_agrees wp edim (length hs) hdim"
    and "hs \<noteq> []" and "wf_head edim hdim (hd hs)" and "0 < edim"
  shows "loadPreExtractedWeights e0 (Some wp) name =
           (None, e0\<lparr>numHeads := length hs, headDim := hdim, embedDim := edim, heads := hs,
                      this_Wo := None, bo := w_bo wp,
                      isRealModel := (modelConfig_isRealModel wp \<noteq> Some False),
                      modelName := str_or name (str_or (w_model_name wp) (Some ''Pre-extracted Model'')),
                      useBias := (bq (hd hs) \<noteq> None)\<rparr>)"
proof -
  obtain h0 rest where hs: "hs = h0 # rest"
    using assms(3) by (cases hs) auto
  note f = first_Wq_wf [OF assms(3-5)]
  show ?thesis
  proof (cases "w_config wp")
    case None
    then show ?thesis
      using assms(1) f by (simp add: loadPreExtractedWeights_def Let_def map_copy_head copy_head_id num_or_def hs)
  next
    case (Some c)
    then have a: "dim_agrees (embed_dim c) edim" "dim_agrees (num_heads c) (length hs)"
      "dim_agrees (head_dim c) hdim"
      using assms(2) by (simp_all add: config_agrees_def)
    have "num_or (embed_dim c) (first_Wq_rows hs) = Inr edim"
      "num_or (num_heads c) (Inr (length hs)) = Inr (length hs)"
      "num_or (head_dim c) (first_Wq_cols hs) = Inr hdim"
      using a f by (simp_all add: num_or_agrees)
    then show ?thesis
      using assms(1) Some
      by (simp add: loadPreExtractedWeights_def Let_def map_copy_head)
        (simp add: hs)
  qed
qed


lemma concat_is_matrix:
  assumes "\<forall>V \<in> set Vs. is_matrix hdim d V"
  shows "is_matrix (length Vs * hdim) d (concat Vs)"
proof -
  have "\<forall>V \<in> set Vs. length V = hdim"
    using assms by (auto simp: is_matrix_def)
  then have "length (concat Vs) = length Vs * hdim"
    using length_concat_const [of Vs "\<lambda>V. V" hdim] by simp
  moreover have "list_all (\<lambda>row. length row = d) (concat Vs)"
    using assms by (auto simp: list_all_iff is_matrix_def)
  ultimately show ?thesis
    by (simp add: is_matrix_def)
qed

lemma sdpa_cong:
  "headDim e1 = headDim e2 \<Longrightarrow> temperature e1 = temperature e2 \<Longrightarrow>
   scaledDotProductAttention e1 Qm Km Vm = scaledDotProductAttention e2 Qm Km Vm"
  by (simp add: scaledDotProductAttention_def)

lemma head_step_strip_Wo:
  assumes "head_step e2 X h = Inr (ho, po)"
    and "headDim e1 = headDim e2" and "temperature e1 = temperature e2"
  shows "head_step e1 X (h\<lparr>Wo := None\<rparr>) = Inr (ho, None)"
  using assms(1)
  by (auto simp: head_step_def then_e_eq_Inr sdpa_cong [OF assms(2,3)] split: prod.splits)

lemma heads_loop_strip_Wo:
  assumes "heads_loop e2 X idxs = Inr (hos, projs)"
    and "heads e1 = map (\<lambda>h. h\<lparr>Wo := None\<rparr>) (heads e2)"
    and "headDim e1 = headDim e2" and "temperature e1 = temperature e2"
  shows "heads_loop e1 X idxs = Inr (hos, [])"
  using assms(1)
proof (induction idxs arbitrary: hos projs)
  case Nil
  then show ?case by simp
next
  case (Cons h idxs)
  from Cons.prems have lt: "h < length (heads e2)"
    by (simp split: if_splits)
  from Cons.prems lt obtain ho po hos' projs' where
    st: "head_step e2 X (heads e2 ! h) = Inr (ho, po)" and
    rest: "heads_loop e2 X idxs = Inr (hos', projs')" and
    hos: "hos = ho # hos'"
    by (auto simp: then_e_eq_Inr split: prod.splits)
  have "head_step e1 X (heads e1 ! h) = Inr (ho, None)"
    using head_step_strip_Wo [OF st assms(3,4)] lt by (simp add: assms(2))
  then show ?case
    using Cons.IH [OF rest] lt by (simp add: assms(2) hos)
qed

lemma forward_Inr_projected:
  assumes "forward e X = Inr r" and "heads_loop e X [0..<numHeads e] = Inr (hos, projs)"
  shows "headProjectedOutputs r = (if projs = [] then None else Some projs)"
  using assms
  by (auto simp: forward_def Let_def then_e_eq_Inr split: if_splits list.splits)

lemma forward_all_Wo_path:
  assumes fw: "forward e X = Inr r" and len: "length (heads e) = numHeads e"
    and allWo: "list_all (\<lambda>h. Wo h \<noteq> None) (heads e)"
  shows "took_per_head_path e r"
proof -
  let ?idxs = "[0..<numHeads e]"
  obtain projs where
    hl: "heads_loop e X ?idxs = Inr (headOutputs r, projs)" and
    sum: "length projs = numHeads e \<Longrightarrow> projs \<noteq> [] \<and>
       r_output r =
         (let summed = foldl (add_into (length X) (embedDim e)) (hd projs) (tl projs)
          in case bo e of None \<Rightarrow> summed
             | Some b \<Rightarrow> if 0 < length b then add_bias_into (length X) (embedDim e) summed b
                         else summed)"
    by (rule forward_Inr [OF fw]) blast
  have "\<forall>h \<in> set ?idxs. Wo (heads e ! h) \<noteq> None"
    using allWo len by (simp add: list_all_length)
  then have "filter (\<lambda>h. Wo (heads e ! h) \<noteq> None) ?idxs = ?idxs"
    by (simp add: filter_id_conv)
  then have l: "length projs = numHeads e"
    using heads_loop_Inr(2) [OF hl] by simp
  then have "projs \<noteq> []"
    using sum by blast
  then show ?thesis
    using forward_Inr_projected [OF fw hl] l by (simp add: took_per_head_path_def)
qed

section \<open>Exceptions of the engine are type errors\<close>

lemma matmul_Inl: "matmul A B = Inl err \<Longrightarrow> err = TypeError"
  by (auto simp: matmul_def Let_def split: list.splits if_splits)

lemma then_e_eq_Inl:
  "then_e m f = Inl err \<longleftrightarrow> m = Inl err \<or> (\<exists>x. m = Inr x \<and> f x = Inl err)"
  by (cases m) simp_all

lemma linearProjection_Inl: "linearProjection X W b = Inl err \<Longrightarrow> err = TypeError"
  by (auto simp: linearProjection_def then_e_eq_Inl matmul_opt_def dest: matmul_Inl
      split: option.splits)

lemma sdpa_Inl: "scaledDotProductAttention e Qm Km Vm = Inl err \<Longrightarrow> err = TypeError"
  by (auto simp: scaledDotProductAttention_def then_e_eq_Inl Let_def transpose_m_def softmax_def
      dest: matmul_Inl split: list.splits)

lemma head_step_Inl: "head_step e X h = Inl err \<Longrightarrow> err = TypeError"
  by (auto simp: head_step_def then_e_eq_Inl dest: matmul_Inl linearProjection_Inl sdpa_Inl
      split: option.splits prod.splits)

lemma heads_loop_Inl: "heads_loop e X idxs = Inl err \<Longrightarrow> err = TypeError"
proof (induction idxs)
  case Nil
  then show ?case by simp
next
  case (Cons h idxs)
  then show ?case
    by (auto simp: then_e_eq_Inl dest: head_step_Inl split: if_splits prod.splits)
qed

lemma forward_missing_Wo:
  assumes "this_Wo e = None" and "h < numHeads e" and "Wo (heads e ! h) = None"
  shows "forward e X = Inl TypeError"
proof (cases "heads_loop e X [0..<numHeads e]")
  case (Inl err)
  then show ?thesis
    using heads_loop_Inl [OF Inl] by (simp add: forward_def)
next
  case (Inr res)
  obtain hos projs where res: "res = (hos, projs)"
    by (cases res)
  have "filter (\<lambda>h. Wo (heads e ! h) \<noteq> None) [0..<numHeads e] \<noteq> [0..<numHeads e]"
    using assms(2,3) by (auto simp: filter_id_conv)
  then have "length (filter (\<lambda>h. Wo (heads e ! h) \<noteq> None) [0..<numHeads e]) \<noteq> length [0..<numHeads e]"
    by (metis filter_True length_filter_less less_irrefl_nat)
  then have "length projs \<noteq> numHeads e"
    using heads_loop_Inr(2) [OF Inr [unfolded res]] by simp
  then show ?thesis
    using Inr by (simp add: forward_def res assms(1) matmul_opt_def)
qed

lemma loadPreExtractedWeights_None:
  assumes "loadPreExtractedWeights e0 (Some w) name = (None, e)" and "w_heads w = Some hs"
  shows "this_Wo e = None" and "heads e = hs"
    and "num_heads_agrees w (length hs) \<Longrightarrow> numHeads e = length hs"
proof -
  let ?cfg = "case w_config w of
                None \<Rightarrow> \<lparr>embed_dim = None, num_heads = None, head_dim = None\<rparr> | Some c \<Rightarrow> c"
  from assms obtain hdim edim h0 rest where
    hs: "hs = h0 # rest" and
    e: "e = e0\<lparr>numHeads := (case num_or (num_heads ?cfg) (Inr (length hs)) of
                               Inr n \<Rightarrow> n | Inl _ \<Rightarrow> length hs),
               headDim := hdim, embedDim := edim, heads := map copy_head hs,
               this_Wo := None, bo := w_bo w,
               isRealModel := (modelConfig_isRealModel w \<noteq> Some False),
               modelName := str_or name (str_or (w_model_name w) (Some ''Pre-extracted Model'')),
               useBias := (bq h0 \<noteq> None)\<rparr>"
    by (auto simp: loadPreExtractedWeights_def Let_def split: sum.splits list.splits)
  show "this_Wo e = None" and "heads e = hs"
    by (simp_all add: e map_copy_head)
  show "numHeads e = length hs" if "num_heads_agrees w (length hs)"
    using that
    by (auto simp: e num_heads_agrees_def dim_agrees_def num_or_def split: option.splits)
qed

section \<open>Random initialisation\<close>

lemma randomMatrix_xavier: "xavier_matrix r c rnd (Some (fst (randomMatrix r c rnd pos)))"
  by (auto simp: xavier_matrix_def randomMatrix_def Let_def is_matrix_def list_all_iff)

lemma xavier_matrixD:
  assumes "xavier_matrix r c rnd W"
  shows "W \<noteq> None" and "has_matrix r c W" and "opt_matrix r c W"
  using assms
  by (simp_all add: xavier_matrix_def has_matrix_def opt_matrix_def split: option.splits)

lemma random_heads_props:
  assumes "random_heads n edim hdim rnd pos = (hs, pos')"
  shows "length hs = n"
    and "list_all (\<lambda>h. xavier_matrix edim hdim rnd (Wq h) \<and> xavier_matrix edim hdim rnd (Wk h) \<and>
                       xavier_matrix edim hdim rnd (Wv h) \<and> xavier_matrix hdim edim rnd (Wo h) \<and>
                       bq h = None \<and> bk h = None \<and> bv h = None) hs"
  using assms
proof (induction n arbitrary: pos hs pos')
  case 0
  {
    case 1 then show ?case by simp
  next
    case 2 then show ?case by simp
  }
next
  case (Suc n)
  {
    fix pos hs pos'
    assume a: "random_heads (Suc n) edim hdim rnd pos = (hs, pos')"
    obtain wq p1 where wq: "randomMatrix edim hdim rnd pos = (wq, p1)" by force
    obtain wk p2 where wk: "randomMatrix edim hdim rnd p1 = (wk, p2)" by force
    obtain wv p3 where wv: "randomMatrix edim hdim rnd p2 = (wv, p3)" by force
    obtain wo p4 where wo: "randomMatrix hdim edim rnd p3 = (wo, p4)" by force
    obtain rest p5 where rest: "random_heads n edim hdim rnd p4 = (rest, p5)" by force
    have hs: "hs = \<lparr>Wq = Some wq, Wk = Some wk, Wv = Some wv, Wo = Some wo,
                    bq = None, bk = None, bv = None\<rparr> # rest"
      using a by (simp add: wq wk wv wo rest)
    have x: "xavier_matrix edim hdim rnd (Some wq)" "xavier_matrix edim hdim rnd (Some wk)"
      "xavier_matrix edim hdim rnd (Some wv)" "xavier_matrix hdim edim rnd (Some wo)"
      using randomMatrix_xavier [of edim hdim rnd pos] randomMatrix_xavier [of edim hdim rnd p1]
        randomMatrix_xavier [of edim hdim rnd p2] randomMatrix_xavier [of hdim edim rnd p3]
      by (simp_all add: wq wk wv wo)
    have "length hs = Suc n \<and>
       list_all (\<lambda>h. xavier_matrix edim hdim rnd (Wq h) \<and> xavier_matrix edim hdim rnd (Wk h) \<and>
                       xavier_matrix edim hdim rnd (Wv h) \<and> xavier_matrix hdim edim rnd (Wo h) \<and>
                       bq h = None \<and> bk h = None \<and> bv h = None) hs"
      using Suc.IH [OF rest] x by (simp add: hs)
  }
  note step = this
  {
    case 1 then show ?case using step by blast
  next
    case 2 then show ?case using step by blast
  }
qed

section \<open>The examples evaluated\<close>

lemma ex_attention:
  assumes "headDim e = 1" and "temperature e = 1"
  shows "scaledDotProductAttention e [[0], [0]] [[0], [0]] [[v1], [v2]] =
           Inr ([[(v1 + v2) / 2], [(v1 + v2) / 2]], [[1 / 2, 1 / 2], [1 / 2, 1 / 2]], [[0, 0], [0, 0]])"
  by (simp add: scaledDotProductAttention_def transpose_m_def matmul_def dot_row_def elem_def
      softmax_def assms add_divide_distrib)

lemma ex_projections:
  "linearProjection ex_X (Some [[0], [0]]) None = Inr [[0], [0]]"
  "linearProjection ex_X (Some [[1], [0]]) None = Inr [[1], [3]]"
  "linearProjection ex_X (Some [[0], [1]]) None = Inr [[2], [4]]"
  by (simp_all add: linearProjection_def matmul_opt_def matmul_def dot_row_def elem_def ex_X_def)

lemma ex_head_step:
  assumes "headDim e = 1" and "temperature e = 1"
  shows "head_step e ex_X ex_head1 = Inr (ex_trace1, Some [[2, 0], [2, 0]])"
    and "head_step e ex_X ex_head2 = Inr (ex_trace2, Some [[0, 3], [0, 3]])"
    and "head_step e ex_X (ex_head1\<lparr>Wo := None\<rparr>) = Inr (ex_trace1, None)"
    and "head_step e ex_X (ex_head2\<lparr>Wo := None\<rparr>) = Inr (ex_trace2, None)"
  by (simp_all add: head_step_def ex_head1_def ex_head2_def ex_projections
      ex_attention [OF assms] ex_trace1_def ex_trace2_def matmul_def dot_row_def elem_def)

lemma upt_2: "[0..<2] = [0, Suc 0]"
  by (simp add: upt_conv_Cons)

lemma ex_forward_per_head:
  "forward ex_per_head_engine ex_X =
     Inr \<lparr>r_output = [[12, 23], [12, 23]], headOutputs = [ex_trace1, ex_trace2],
           headAttentions = [[[1 / 2, 1 / 2], [1 / 2, 1 / 2]], [[1 / 2, 1 / 2], [1 / 2, 1 / 2]]],
           concatenated = [[2, 3], [2, 3]],
           headProjectedOutputs = Some [[[2, 0], [2, 0]], [[0, 3], [0, 3]]]\<rparr>"
proof -
  have d: "headDim ex_per_head_engine = 1" "temperature ex_per_head_engine = 1"
    "numHeads ex_per_head_engine = 2" "heads ex_per_head_engine = [ex_head1, ex_head2]"
    "embedDim ex_per_head_engine = 2" "bo ex_per_head_engine = Some [10, 20]"
    by (simp_all add: ex_per_head_engine_def)
  have hl: "heads_loop ex_per_head_engine ex_X [0, Suc 0] =
        Inr ([ex_trace1, ex_trace2], [[[2, 0], [2, 0]], [[0, 3], [0, 3]]])"
    by (simp add: d ex_head_step [OF d(1,2)])
  have len: "length ex_X = 2"
    by (simp add: ex_X_def)
  show ?thesis
    unfolding forward_def Let_def d upt_2 hl len
    by (simp add: add_into_def add_bias_into_def add_row_def elem_def concat_rows_def upt_2
        ex_trace1_def ex_trace2_def)
qed

lemma ex_forward_legacy:
  "forward ex_legacy_engine ex_X =
     Inr \<lparr>r_output = [[2, 3], [2, 3]], headOutputs = [ex_trace1, ex_trace2],
           headAttentions = [[[1 / 2, 1 / 2], [1 / 2, 1 / 2]], [[1 / 2, 1 / 2], [1 / 2, 1 / 2]]],
           concatenated = [[2, 3], [2, 3]],
           headProjectedOutputs = None\<rparr>"
proof -
  have d: "headDim ex_legacy_engine = 1" "temperature ex_legacy_engine = 1"
    "numHeads ex_legacy_engine = 2"
    "heads ex_legacy_engine = [ex_head1\<lparr>Wo := None\<rparr>, ex_head2\<lparr>Wo := None\<rparr>]"
    "embedDim ex_legacy_engine = 2" "this_Wo ex_legacy_engine = Some [[1, 0], [0, 1]]"
    by (simp_all add: ex_legacy_engine_def)
  have hl: "heads_loop ex_legacy_engine ex_X [0, Suc 0] = Inr ([ex_trace1, ex_trace2], [])"
    by (simp add: d ex_head_step [OF d(1,2)])
  have len: "length ex_X = 2"
    by (simp add: ex_X_def)
  show ?thesis
    unfolding forward_def Let_def d upt_2 hl len
    by (simp add: concat_rows_def upt_2 ex_trace1_def ex_trace2_def matmul_opt_def matmul_def
        dot_row_def elem_def)
qed

lemma ex_forward_loaded:
  "forward ex_loaded_engine ex_X =
     Inr (ex_result_per_head\<lparr>r_output := [[2, 3], [2, 3]]\<rparr>)"
proof -
  have d: "headDim ex_loaded_engine = 1" "temperature ex_loaded_engine = 1"
    "numHeads ex_loaded_engine = 2" "heads ex_loaded_engine = [ex_head1, ex_head2]"
    "embedDim ex_loaded_engine = 2" "bo ex_loaded_engine = None"
    by (simp_all add: ex_loaded_engine_def)
  have hl: "heads_loop ex_loaded_engine ex_X [0, Suc 0] =
        Inr ([ex_trace1, ex_trace2], [[[2, 0], [2, 0]], [[0, 3], [0, 3]]])"
    by (simp add: d ex_head_step [OF d(1,2)])
  have len: "length ex_X = 2"
    by (simp add: ex_X_def)
  show ?thesis
    unfolding forward_def Let_def d upt_2 hl len
    by (simp add: add_into_def add_row_def elem_def concat_rows_def upt_2
        ex_trace1_def ex_trace2_def ex_result_per_head_def)
qed

lemma ex_wf:
  "wf_engine ex_per_head_engine" "wf_engine ex_legacy_engine"
  by (simp_all add: wf_engine_def ex_per_head_engine_def ex_legacy_engine_def wf_head_def
      ex_head1_def ex_head2_def has_matrix_def opt_matrix_def opt_vec_def is_matrix_def)

lemma ex_X_shape: "is_matrix 2 2 ex_X"
  by (simp add: is_matrix_def ex_X_def)

lemma ex_load_legacy:
  "loadRealWeights (constructor 2 2 1) (Some ex_legacy_bundle) None = (None, ex_legacy_engine)"
  by (simp add: loadRealWeights_def ex_legacy_bundle_def ex_legacy_engine_def constructor_def
      first_Wq_cols_def first_Wq_rows_def first_Wq_def Let_def copy_head_id ex_head1_def
      ex_head2_def)

lemma ex_load_per_head:
  "loadPreExtractedWeights (constructor 2 2 1) (Some ex_per_head_bundle) None =
     (None, ex_loaded_engine)"
  by (simp add: loadPreExtractedWeights_def ex_per_head_bundle_def ex_loaded_engine_def
      constructor_def num_or_def str_or_def Let_def copy_head_id ex_head1_def ex_head2_def)

lemma ex_mixed_load:
  "loadPreExtractedWeights (constructor 2 2 1) (Some ex_mixed_bundle) None = (None, ex_mixed_engine)"
  by (simp add: loadPreExtractedWeights_def ex_mixed_bundle_def ex_mixed_engine_def
      constructor_def num_or_def str_or_def Let_def copy_head_id ex_head1_def ex_head2_def)

lemma ex_random_create: "createRandomMHSA 1 1 1 ex_rnd 0 = (ex_random_engine, 5)"
  by (simp add: createRandomMHSA_def initializeRandomWeights_def constructor_def
      randomMatrix_def ex_rnd_def ex_random_engine_def)

lemma ex_random_forward: "forward ex_random_engine [[1]] = Inr ex_random_result"
  by (simp add: forward_def ex_random_engine_def head_step_def linearProjection_def
      matmul_opt_def matmul_def dot_row_def elem_def scaledDotProductAttention_def
      transpose_m_def softmax_def ex_random_result_def concat_rows_def)

section \<open>The claims\<close>

subsection \<open>Softmax\<close>

text \<open>
  Claim C7. For every score matrix with non-empty rows and every temperature \<open>t > 0\<close>,
  \<open>softmax\<close> returns the matrix whose rows are obtained by subtracting the row maximum,
  dividing by \<open>t\<close>, exponentiating and dividing by the row sum; each of its rows sums
  to \<open>1\<close> and each entry lies in \<open>[0, 1]\<close>. (Exact real arithmetic.)
\<close>

theorem softmax_rows_normalised:
  assumes "0 < t" and "\<forall>row \<in> set S. row \<noteq> []"
  shows "\<exists>R. softmax S t = Inr R \<and>
             R = map (\<lambda>row. map (\<lambda>s. exp ((s - Max (set row)) / t) /
                                   (\<Sum>s' \<leftarrow> row. exp ((s' - Max (set row)) / t))) row) S \<and>
             (\<forall>r \<in> set R. sum_list r = 1 \<and> (\<forall>x \<in> set r. 0 \<le> x \<and> x \<le> 1))"
proof -
  let ?R = "map (softmax_row t) S"
  have "?R = map (\<lambda>row. map (\<lambda>s. exp ((s - Max (set row)) / t) /
                                   (\<Sum>s' \<leftarrow> row. exp ((s' - Max (set row)) / t))) row) S"
    using assms(2) by (intro map_cong refl softmax_row_closed_form) blast
  moreover have "\<forall>r \<in> set ?R. sum_list r = 1 \<and> (\<forall>x \<in> set r. 0 \<le> x \<and> x \<le> 1)"
    using assms(2) softmax_row_sum softmax_row_range by auto
  ultimately show ?thesis
    unfolding softmax_def by blast
qed

theorem softmax_rows_normalised_witness:
  "(0::real) < 1 \<and> softmax [[0, 0]] 1 = Inr [[1 / 2, 1 / 2]] \<and> sum_list [1 / 2, 1 / 2] = (1::real)"
proof -
  have h: "(0::real) < 1" by simp
  have ne: "\<forall>row \<in> set [[0, 0 :: real]]. row \<noteq> []" by simp
  show ?thesis
    using softmax_rows_normalised [OF h ne] by (simp add: softmax_def)
qed

text \<open>
  Claim C9. Shift invariance: for every score matrix, every temperature \<open>t > 0\<close> and
  every constant \<open>c\<close>, adding \<open>c\<close> to every element of row \<open>i\<close> leaves the result of
  \<open>softmax\<close> unchanged (row \<open>i\<close> and, the rows being independent, all others).
\<close>

theorem softmax_shift_invariant:
  assumes "0 < t" and "i < length S"
  shows "softmax (S[i := map (\<lambda>x. x + c) (S ! i)]) t = softmax S t"
proof -
  have "map (softmax_row t) (S[i := map (\<lambda>x. x + c) (S ! i)]) =
        (map (softmax_row t) S)[i := softmax_row t (S ! i)]"
    by (simp add: map_update softmax_row_shift)
  also have "\<dots> = map (softmax_row t) S"
    using assms(2) by (metis list_update_id nth_map)
  finally show ?thesis
    by (simp add: softmax_def)
qed

theorem softmax_shift_invariant_witness:
  "(0::real) < 1 \<and> (0::nat) < length [[0, 0 :: real]] \<and>
   softmax [[5, 5]] 1 = softmax [[0, 0]] 1 \<and> softmax [[0, 0]] 1 = Inr [[1 / 2, 1 / 2]]"
proof -
  have h: "(0::real) < 1" by simp
  have i: "(0::nat) < length [[0, 0 :: real]]" by simp
  show ?thesis
    using softmax_shift_invariant [OF h i, of 5] by (simp add: softmax_def)
qed

text \<open>
  Claim C6, as amended. \<open>softmax\<close> does not check its temperature: for every score
  matrix and every temperature, positive or not, the call returns a matrix with the
  row lengths of its argument; no exception is raised.
\<close>

theorem softmax_never_fails:
  "\<exists>R. softmax S t = Inr R \<and> map length R = map length S"
  by (simp add: softmax_def softmax_row_length o_def)

text \<open>
  The claim as written asks for a failure at every non-positive temperature. At
  temperature \<open>-1\<close> the call on \<open>[[0, 0]]\<close> returns \<open>[[0.5, 0.5]]\<close>.
\<close>

theorem softmax_negative_temperature_returns:
  "softmax [[0, 0]] (- 1) = Inr [[1 / 2, 1 / 2]]"
  by (simp add: softmax_def)

subsection \<open>The engine before initialisation and the loaders\<close>

text \<open>
  Claim C4, as amended. \<open>forward\<close> on an engine that was constructed and not yet
  initialised fails, whatever the embeddings, with the runtime's \<open>TypeError\<close>: with at
  least one head requested the first head is \<open>undefined\<close> and reading its \<open>Wq\<close> throws;
  with none, \<open>headProjectedOutputs[0]\<close> is \<open>undefined\<close> and its \<open>map\<close> throws. \<open>forward\<close>
  has no check of initialisation and throws no error of its own.
\<close>

theorem forward_uninitialized_fails:
  "forward (constructor edim n t) X = Inl TypeError"
proof (cases n)
  case 0
  then show ?thesis
    by (simp add: forward_def constructor_def)
next
  case (Suc m)
  then have "[0..<n] = 0 # [1..<n]"
    by (simp add: upt_conv_Cons)
  then show ?thesis
    by (simp add: forward_def constructor_def)
qed

text \<open>
  The claim as written asks for a dedicated \<open>NotInitialized\<close> error. The failure of the
  uninitialised engine is the plain \<open>TypeError\<close> of a property read on \<open>undefined\<close>, the
  very error that an initialised, well-formed engine gives on embeddings that are too
  wide: it does not tell the caller that the engine was not initialised.
\<close>

theorem uninitialized_failure_is_a_type_error:
  "forward (constructor 2 2 1) ex_X = Inl TypeError \<and>
   wf_engine ex_per_head_engine \<and>
   forward ex_per_head_engine [[1, 2, 3]] = Inl TypeError"
proof -
  have "[0..<2] = [0, Suc 0]"
    by (rule upt_2)
  then have "forward (constructor 2 2 1) ex_X = Inl TypeError"
    by (simp add: forward_def constructor_def)
  moreover have "head_step ex_per_head_engine [[1, 2, 3]] ex_head1 = Inl TypeError"
    by (simp add: head_step_def ex_head1_def linearProjection_def matmul_opt_def matmul_def)
  then have "forward ex_per_head_engine [[1, 2, 3]] = Inl TypeError"
    by (simp add: forward_def ex_per_head_engine_def upt_2)
  ultimately show ?thesis
    using ex_wf(1) by simp
qed

text \<open>
  Claim C5, as amended. When the bundle is missing altogether or has no \<open>heads\<close>
  field, both loaders throw their \<open>Invalid ... weight structure\<close> error before any
  field is assigned: the engine is left as it was.
\<close>

theorem load_without_heads_fails_unchanged:
  assumes "w = None \<or> (\<exists>ws. w = Some ws \<and> w_heads ws = None)"
  shows "loadRealWeights e w name = (Some (Error ''Invalid weight structure''), e) \<and>
         loadPreExtractedWeights e w name =
           (Some (Error ''Invalid pre-extracted weight structure''), e)"
  using assms
  by (auto simp: loadRealWeights_def loadPreExtractedWeights_def split: option.splits)

theorem load_without_heads_fails_unchanged_witness:
  "loadRealWeights (constructor 4 2 1) (Some bundle_no_heads) None =
     (Some (Error ''Invalid weight structure''), constructor 4 2 1) \<and>
   loadPreExtractedWeights (constructor 4 2 1) (Some bundle_no_heads) None =
     (Some (Error ''Invalid pre-extracted weight structure''), constructor 4 2 1)"
proof -
  have h: "Some bundle_no_heads = None \<or>
           (\<exists>ws. Some bundle_no_heads = Some ws \<and> w_heads ws = None)"
    by (simp add: bundle_no_heads_def)
  show ?thesis
    using load_without_heads_fails_unchanged [OF h] by simp
qed

text \<open>
  The claim as written also covers heads that lack \<open>Wq\<close>, \<open>Wk\<close> or \<open>Wv\<close> and an empty
  \<open>heads\<close>. A bundle whose only head has no \<open>Wk\<close> and no \<open>Wv\<close> is loaded by both loaders
  without any exception; and an empty \<open>heads\<close> makes \<open>loadRealWeights\<close> throw a
  \<open>TypeError\<close> only after \<open>numHeads\<close> has been overwritten.
\<close>

theorem load_accepts_head_without_Wk_Wv:
  "fst (loadRealWeights (constructor 1 1 1) (Some bundle_missing_Wk_Wv) None) = None \<and>
   fst (loadPreExtractedWeights (constructor 1 1 1) (Some bundle_missing_Wk_Wv) None) = None \<and>
   loadRealWeights (constructor 4 2 1) (Some bundle_empty_heads) None =
     (Some TypeError, (constructor 4 2 1)\<lparr>numHeads := 0\<rparr>)"
  by (simp add: loadRealWeights_def loadPreExtractedWeights_def bundle_missing_Wk_Wv_def
      bundle_empty_heads_def head_only_Wq_def first_Wq_cols_def first_Wq_rows_def
      first_Wq_def num_or_def Let_def)

subsection \<open>The forward pass\<close>

text \<open>
  Claim C1. For every initialised engine and every embeddings matrix of shape
  \<open>[seqLen \<times> embedDim]\<close>, \<open>forward\<close> returns, and its final output is the merge of the
  recorded head outputs as the specification describes it: when every head carries
  a per-head \<open>Wo\<close>, the elementwise sum over the heads of \<open>headOutput \<cdot> headWo\<close> with the
  combined bias, if present, added to every row; otherwise the horizontal
  concatenation of the head outputs multiplied by the combined \<open>Wo\<close>.
\<close>

theorem forward_merge_strategy:
  assumes "wf_engine e" and "is_matrix seqLen (embedDim e) X" and "0 < seqLen"
  shows "\<exists>r. forward e X = Inr r \<and>
             Inr (r_output r) = spec_merge e seqLen (map ho_output (headOutputs r))"
proof -
  obtain r where r: "forward e X = Inr r"
    using forward_wf_succeeds [OF assms] by blast
  have "Inr (r_output r) = spec_merge e (length X) (map ho_output (headOutputs r))"
    using forward_merge_per_head [OF assms(1) r] forward_merge_concat [OF assms(1) r]
    by (simp add: spec_merge_def)
  then show ?thesis
    using r is_matrix_rows [OF assms(2)] by auto
qed

theorem forward_merge_strategy_witness:
  "wf_engine ex_per_head_engine \<and> wf_engine ex_legacy_engine \<and> is_matrix 2 2 ex_X \<and>
   forward ex_per_head_engine ex_X = Inr ex_result_per_head \<and>
   spec_merge ex_per_head_engine 2 [[[2], [2]], [[3], [3]]] = Inr [[12, 23], [12, 23]] \<and>
   forward ex_legacy_engine ex_X = Inr ex_result_legacy \<and>
   spec_merge ex_legacy_engine 2 [[[2], [2]], [[3], [3]]] = Inr [[2, 3], [2, 3]]"
proof -
  have f1: "forward ex_per_head_engine ex_X = Inr ex_result_per_head"
    by (simp add: ex_forward_per_head ex_result_per_head_def)
  have f2: "forward ex_legacy_engine ex_X = Inr ex_result_legacy"
    by (simp add: ex_forward_legacy ex_result_legacy_def)
  have ed: "embedDim ex_per_head_engine = 2" "embedDim ex_legacy_engine = 2"
    by (simp_all add: ex_per_head_engine_def ex_legacy_engine_def)
  have X1: "is_matrix 2 (embedDim ex_per_head_engine) ex_X"
    and X2: "is_matrix 2 (embedDim ex_legacy_engine) ex_X"
    unfolding ed by (rule ex_X_shape)+
  have pos: "(0::nat) < 2" by simp
  have m1: "spec_merge ex_per_head_engine 2 [[[2], [2]], [[3], [3]]] = Inr [[12, 23], [12, 23]]"
    using forward_merge_strategy [OF ex_wf(1) X1 pos] unfolding f1
    by (simp add: ex_result_per_head_def ex_trace1_def ex_trace2_def)
  have m2: "spec_merge ex_legacy_engine 2 [[[2], [2]], [[3], [3]]] = Inr [[2, 3], [2, 3]]"
    using forward_merge_strategy [OF ex_wf(2) X2 pos] unfolding f2
    by (simp add: ex_result_legacy_def ex_trace1_def ex_trace2_def)
  show ?thesis
    using ex_wf ex_X_shape f1 f2 m1 m2 by blast
qed

text \<open>
  Claim C8. For every initialised engine and every embeddings matrix with \<open>seqLen\<close>
  rows and \<open>embedDim\<close> columns, \<open>forward\<close> returns and its final output has shape
  \<open>[seqLen \<times> embedDim]\<close>, whichever merge branch is taken.
\<close>

theorem forward_output_has_shape:
  assumes "wf_engine e" and "is_matrix seqLen (embedDim e) X" and "0 < seqLen"
  shows "\<exists>r. forward e X = Inr r \<and> is_matrix seqLen (embedDim e) (r_output r)"
  using forward_wf_succeeds [OF assms] forward_output_shape [OF assms(1)]
    is_matrix_rows [OF assms(2)] by auto

theorem forward_output_has_shape_witness:
  "wf_engine ex_per_head_engine \<and> wf_engine ex_legacy_engine \<and> is_matrix 2 2 ex_X \<and>
   (\<exists>r. forward ex_per_head_engine ex_X = Inr r \<and> is_matrix 2 2 (r_output r)) \<and>
   (\<exists>r. forward ex_legacy_engine ex_X = Inr r \<and> is_matrix 2 2 (r_output r))"
proof -
  have ed: "embedDim ex_per_head_engine = 2" "embedDim ex_legacy_engine = 2"
    by (simp_all add: ex_per_head_engine_def ex_legacy_engine_def)
  have X1: "is_matrix 2 (embedDim ex_per_head_engine) ex_X"
    and X2: "is_matrix 2 (embedDim ex_legacy_engine) ex_X"
    unfolding ed by (rule ex_X_shape)+
  have pos: "(0::nat) < 2" by simp
  show ?thesis
    using forward_output_has_shape [OF ex_wf(1) X1 pos, unfolded ed]
      forward_output_has_shape [OF ex_wf(2) X2 pos, unfolded ed] ex_wf ex_X_shape
    by blast
qed

text \<open>
  Claim C2. Take heads that all carry a per-head \<open>Wo\<close>. Let a legacy bundle hold
  these heads without their \<open>Wo\<close> and, as combined \<open>Wo\<close>, the per-head matrices stacked
  vertically; let a per-head bundle hold the heads themselves (its \<open>config\<close>, if any,
  stating the true dimensions); neither has an output bias. Then \<open>loadRealWeights\<close>
  on the first and \<open>loadPreExtractedWeights\<close> on the second succeed, on engines of
  one temperature, and for every embeddings matrix of shape \<open>[n \<times> embedDim]\<close> both
  engines' \<open>forward\<close> return, with equal final outputs. (Exact real arithmetic.)
\<close>

theorem legacy_and_per_head_bundles_agree:
  assumes hs: "hs \<noteq> []" "list_all (wf_head edim hdim) hs" "list_all (\<lambda>h. Wo h \<noteq> None) hs"
    and dims: "0 < edim" "0 < hdim"
    and legacy: "w_heads wl = Some (map (\<lambda>h. h\<lparr>Wo := None\<rparr>) hs)"
      "w_Wo wl = Some (concat (map (\<lambda>h. the (Wo h)) hs))" "w_bo wl = None"
    and per_head: "w_heads wp = Some hs" "w_bo wp = None" "config_agrees wp edim (length hs) hdim"
    and temp: "0 < temperature e0" "temperature e0' = temperature e0"
    and X: "is_matrix n edim X" "0 < n"
  shows "\<exists>e1 e2 r1 r2.
           loadRealWeights e0 (Some wl) name1 = (None, e1) \<and>
           loadPreExtractedWeights e0' (Some wp) name2 = (None, e2) \<and>
           forward e1 X = Inr r1 \<and> forward e2 X = Inr r2 \<and> r_output r1 = r_output r2"
proof -
  let ?strip = "map (\<lambda>h. h\<lparr>Wo := None\<rparr>) hs"
  let ?Ws = "map (\<lambda>h. the (Wo h)) hs"
  let ?k = "length hs"
  obtain h0 rest where hs_cons: "hs = h0 # rest"
    using hs(1) by (cases hs) auto
  have wf0: "wf_head edim hdim (hd hs)"
    using hs(2) by (simp add: hs_cons)
  have wf0': "wf_head edim hdim (hd ?strip)"
    using wf0 by (simp add: hs_cons wf_head_def opt_matrix_def)
  define e1 where "e1 = e0\<lparr>numHeads := length ?strip, headDim := hdim, embedDim := edim,
      heads := ?strip, this_Wo := Some (concat ?Ws), bo := w_bo wl, isRealModel := True,
      modelName := name1, useBias := (bq (hd ?strip) \<noteq> None)\<rparr>"
  define e2 where "e2 = e0'\<lparr>numHeads := ?k, headDim := hdim, embedDim := edim, heads := hs,
      this_Wo := None, bo := w_bo wp,
      isRealModel := (modelConfig_isRealModel wp \<noteq> Some False),
      modelName := str_or name2 (str_or (w_model_name wp) (Some ''Pre-extracted Model'')),
      useBias := (bq (hd hs) \<noteq> None)\<rparr>"
  have l1: "loadRealWeights e0 (Some wl) name1 = (None, e1)"
    unfolding e1_def using legacy(1,2) wf0' dims(1) hs(1)
    by (intro loadRealWeights_wf) simp_all
  have l2: "loadPreExtractedWeights e0' (Some wp) name2 = (None, e2)"
    unfolding e2_def by (rule loadPreExtractedWeights_wf [OF per_head(1,3) hs(1) wf0 dims(1)])
  have Ws: "\<forall>W \<in> set ?Ws. is_matrix hdim edim W"
    using hs(2,3) by (fastforce simp: list_all_iff wf_head_def opt_matrix_def)
  have wf1: "wf_engine e1"
    using hs dims temp concat_is_matrix [OF Ws]
    by (simp add: wf_engine_def e1_def legacy(3) opt_matrix_def opt_vec_def list_all_iff
        wf_head_def)
  have wf2: "wf_engine e2"
    using hs dims temp
    by (simp add: wf_engine_def e2_def per_head(2) opt_matrix_def opt_vec_def)
  have X1: "is_matrix n (embedDim e1) X" and X2: "is_matrix n (embedDim e2) X"
    using X(1) by (simp_all add: e1_def e2_def)
  obtain r1 where r1: "forward e1 X = Inr r1"
    using forward_wf_succeeds [OF wf1 X1 X(2)] by blast
  obtain r2 where r2: "forward e2 X = Inr r2"
    using forward_wf_succeeds [OF wf2 X2 X(2)] by blast
  have nX: "length X = n"
    using X(1) by (rule is_matrix_rows)
  obtain projs2 where hl2: "heads_loop e2 X [0..<?k] = Inr (headOutputs r2, projs2)"
    using forward_Inr [OF r2] by (auto simp: e2_def)
  obtain projs1 where hl1: "heads_loop e1 X [0..<?k] = Inr (headOutputs r1, projs1)"
    using forward_Inr [OF r1] by (auto simp: e1_def)
  have "heads_loop e1 X [0..<?k] = Inr (headOutputs r2, [])"
    by (rule heads_loop_strip_Wo [OF hl2]) (simp_all add: e1_def e2_def temp(2))
  then have same: "headOutputs r1 = headOutputs r2"
    using hl1 by simp
  let ?outs = "map ho_output (headOutputs r2)"
  have "\<forall>h \<in> set [0..<?k]. h < length (heads e2) \<and> wf_head edim hdim (heads e2 ! h)"
    using hs(2) by (simp add: e2_def list_all_length)
  then obtain hos projs where
    "heads_loop e2 X [0..<?k] = Inr (hos, projs)" "\<forall>ho \<in> set hos. is_matrix n hdim (ho_output ho)"
    using heads_loop_wf [OF _ X dims] by blast
  then have outs: "\<forall>M \<in> set ?outs. is_matrix n hdim M"
    using hl2 by simp
  have len: "length ?outs = length ?Ws"
    using heads_loop_Inr(1) [OF hl2] by simp
  let ?ps = "zip ?outs ?Ws"
  have ps: "\<forall>(M, W) \<in> set ?ps. is_matrix n hdim M \<and> is_matrix hdim edim W"
  proof (intro ballI, clarify)
    fix M W
    assume "(M, W) \<in> set ?ps"
    then have "M \<in> set ?outs" "W \<in> set ?Ws"
      by (auto dest: set_zip_leftD set_zip_rightD)
    then show "is_matrix n hdim M \<and> is_matrix hdim edim W"
      using outs Ws by blast
  qed
  have "?ps \<noteq> []"
    using len hs(1) by (cases ?outs; cases hs) auto
  then obtain contribs where
    c1: "sequence_e (map (\<lambda>(M, W). matmul M W) ?ps) = Inr contribs" and
    c2: "matmul (concatHorizontal (map fst ?ps)) (concat (map snd ?ps)) =
           Inr (foldl mat_add (zeros n edim) contribs)"
    using concat_project_is_project_sum [OF ps X(2) dims(2)] by blast
  have "\<not> list_all (\<lambda>h. Wo h \<noteq> None) (heads e1)"
    by (simp add: e1_def hs_cons)
  then have "Inr (r_output r1) = merge_concat e1 (map ho_output (headOutputs r1))"
    by (rule forward_merge_concat [OF wf1 r1])
  also have "\<dots> = matmul (concatHorizontal (map fst ?ps)) (concat (map snd ?ps))"
    using len by (simp add: merge_concat_def e1_def same matmul_opt_def)
  finally have out1: "Inr (r_output r1) = Inr (foldl mat_add (zeros n edim) contribs)"
    using c2 by simp
  have "map2 (\<lambda>out h. matmul_opt out (Wo h)) ?outs hs = map (\<lambda>(M, W). matmul M W) ?ps"
    using hs(3)
    by (auto simp: zip_map2 list_all_iff matmul_opt_def dest!: set_zip_rightD
        intro!: map_cong split: option.splits)
  moreover have "list_all (\<lambda>h. Wo h \<noteq> None) (heads e2)"
    using hs(3) by (simp add: e2_def)
  then have "Inr (r_output r2) = merge_per_head e2 (length X) ?outs"
    by (rule forward_merge_per_head [OF wf2 r2])
  ultimately have out2: "Inr (r_output r2) = Inr (foldl mat_add (zeros n edim) contribs)"
    using c1 by (simp add: merge_per_head_def e2_def per_head(2) nX)
  show ?thesis
    using l1 l2 r1 r2 out1 out2 by auto
qed

theorem legacy_and_per_head_bundles_agree_witness:
  "loadRealWeights (constructor 2 2 1) (Some ex_legacy_bundle) None = (None, ex_legacy_engine) \<and>
   loadPreExtractedWeights (constructor 2 2 1) (Some ex_per_head_bundle) None =
     (None, ex_loaded_engine) \<and>
   (\<exists>r1 r2. forward ex_legacy_engine ex_X = Inr r1 \<and> forward ex_loaded_engine ex_X = Inr r2 \<and>
            r_output r1 = r_output r2 \<and> r_output r1 = [[2, 3], [2, 3]])"
proof -
  have "\<exists>e1 e2 r1 r2.
           loadRealWeights (constructor 2 2 1) (Some ex_legacy_bundle) None = (None, e1) \<and>
           loadPreExtractedWeights (constructor 2 2 1) (Some ex_per_head_bundle) None = (None, e2) \<and>
           forward e1 ex_X = Inr r1 \<and> forward e2 ex_X = Inr r2 \<and> r_output r1 = r_output r2"
    by (rule legacy_and_per_head_bundles_agree
          [where hs = "[ex_head1, ex_head2]" and edim = 2 and hdim = 1 and n = 2])
       (simp_all add: ex_legacy_bundle_def ex_per_head_bundle_def wf_head_def has_matrix_def
          opt_matrix_def opt_vec_def is_matrix_def ex_head1_def ex_head2_def config_agrees_def
          dim_agrees_def constructor_def ex_X_def)
  then show ?thesis
    by (auto simp: ex_load_legacy ex_load_per_head ex_forward_legacy ex_forward_loaded)
qed

subsection \<open>Random initialisation and per-head bundles\<close>

text \<open>
  Claim C3, as amended. \<open>createRandomMHSA(embedDim, numHeads, temperature)\<close> with
  \<open>numHeads > 0\<close> sets \<open>headDim = embedDim div numHeads\<close> and builds exactly \<open>numHeads\<close>
  heads, each with Xavier-initialised \<open>Wq\<close>, \<open>Wk\<close>, \<open>Wv\<close> of shape
  \<open>[embedDim \<times> headDim]\<close>, a Xavier-initialised per-head \<open>Wo\<close> of shape
  \<open>[headDim \<times> embedDim]\<close> and no biases, plus one combined \<open>Wo\<close> of shape
  \<open>[numHeads \<cdot> headDim \<times> embedDim]\<close> and no output bias. Consequently every call of
  \<open>forward\<close> on such an engine that returns has taken the per-head branch, and (for
  \<open>numHeads \<le> embedDim\<close>, a positive temperature and embeddings of width \<open>embedDim\<close>)
  its output is the project-then-sum merge; the combined \<open>Wo\<close> is not used.
\<close>

theorem random_initialisation_builds_per_head_engine:
  assumes "0 < k" and "createRandomMHSA edim k t rnd pos = (e, pos')"
  shows "headDim e = edim div k \<and> numHeads e = k \<and> length (heads e) = k \<and>
         list_all (\<lambda>h. xavier_matrix edim (edim div k) rnd (Wq h) \<and>
                       xavier_matrix edim (edim div k) rnd (Wk h) \<and>
                       xavier_matrix edim (edim div k) rnd (Wv h) \<and>
                       xavier_matrix (edim div k) edim rnd (Wo h) \<and>
                       bq h = None \<and> bk h = None \<and> bv h = None) (heads e) \<and>
         xavier_matrix (k * (edim div k)) edim rnd (this_Wo e) \<and> bo e = None \<and>
         (\<forall>X r. forward e X = Inr r \<longrightarrow>
            took_per_head_path e r \<and>
            (k \<le> edim \<and> 0 < t \<and> is_matrix (length X) edim X \<longrightarrow>
               Inr (r_output r) = merge_per_head e (length X) (map ho_output (headOutputs r))))"
proof -
  let ?hd = "edim div k"
  obtain hs p1 where hs: "random_heads k edim ?hd rnd pos = (hs, p1)" by force
  obtain wo p2 where wo: "randomMatrix (k * ?hd) edim rnd p1 = (wo, p2)" by force
  have e: "e = (constructor edim k t)\<lparr>heads := hs, this_Wo := Some wo, bo := None,
       isRealModel := False, modelName := Some ''Random Initialization'', useBias := False\<rparr>"
    using assms(2) [symmetric]
    by (simp add: createRandomMHSA_def initializeRandomWeights_def constructor_def hs wo)
  note props = random_heads_props [OF hs]
  have xw: "xavier_matrix (k * ?hd) edim rnd (Some wo)"
    using randomMatrix_xavier [of "k * ?hd" edim rnd p1] by (simp add: wo)
  have fields: "headDim e = ?hd" "numHeads e = k" "heads e = hs" "this_Wo e = Some wo"
    "bo e = None" "embedDim e = edim" "temperature e = t"
    by (simp_all add: e constructor_def)
  have allWo: "list_all (\<lambda>h. Wo h \<noteq> None) (heads e)"
    using props(2) unfolding fields list_all_iff by (blast dest: xavier_matrixD(1))
  have wf: "wf_engine e" if "k \<le> edim" "0 < t"
  proof -
    have "0 < ?hd" "0 < edim"
      using that(1) assms(1) by (simp_all add: div_greater_zero_iff)
    moreover have "list_all (wf_head edim ?hd) hs"
      using props(2) unfolding list_all_iff wf_head_def
      by (auto dest: xavier_matrixD(2,3) simp: opt_vec_def)
    moreover have "is_matrix (k * ?hd) edim wo"
      using xw by (simp add: xavier_matrix_def)
    ultimately show ?thesis
      using assms(1) that(2) props(1) by (simp add: wf_engine_def fields opt_matrix_def opt_vec_def)
  qed
  have "took_per_head_path e r \<and>
        (k \<le> edim \<and> 0 < t \<and> is_matrix (length X) edim X \<longrightarrow>
           Inr (r_output r) = merge_per_head e (length X) (map ho_output (headOutputs r)))"
    if fw: "forward e X = Inr r" for X r
    using forward_all_Wo_path [OF fw _ allWo] forward_merge_per_head [OF wf fw allWo] props(1)
    by (simp add: fields)
  then show ?thesis
    using props xw by (simp add: fields)
qed

theorem random_initialisation_builds_per_head_engine_witness:
  "(0::nat) < 1 \<and> createRandomMHSA 1 1 1 ex_rnd 0 = (ex_random_engine, 5) \<and>
   headDim ex_random_engine = 1 \<and> length (heads ex_random_engine) = 1 \<and>
   forward ex_random_engine [[1]] = Inr ex_random_result \<and>
   took_per_head_path ex_random_engine ex_random_result \<and>
   merge_per_head ex_random_engine 1 [[[1 / 2]]] = Inr [[1 / 4]]"
proof -
  have pos: "(0::nat) < 1" by simp
  note T = random_initialisation_builds_per_head_engine [OF pos ex_random_create]
  have dims: "headDim ex_random_engine = 1" "length (heads ex_random_engine) = 1"
    using T by simp_all
  have path: "took_per_head_path ex_random_engine ex_random_result"
    using T ex_random_forward by blast
  have "Inr (r_output ex_random_result) =
          merge_per_head ex_random_engine (length [[1::real]])
            (map ho_output (headOutputs ex_random_result))"
    using T ex_random_forward by (simp add: is_matrix_def)
  then have merge: "merge_per_head ex_random_engine 1 [[[1 / 2]]] = Inr [[1 / 4]]"
    by (simp add: ex_random_result_def)
  show ?thesis
    using pos ex_random_create dims ex_random_forward path merge by blast
qed

text \<open>
  The claim as written says that the heads have no per-head \<open>Wo\<close> and that \<open>forward\<close>
  concatenates and projects. On the example run the only head has the \<open>Wo\<close> \<open>[[0.5]]\<close>,
  and \<open>forward\<close> on \<open>[[1]]\<close> returns \<open>[[0.25]]\<close>, where the concatenation times the
  combined \<open>Wo\<close> would be \<open>[[0]]\<close>.
\<close>

theorem random_engine_has_per_head_Wo:
  "createRandomMHSA 1 1 1 ex_rnd 0 = (ex_random_engine, 5) \<and>
   map Wo (heads ex_random_engine) = [Some [[1 / 2]]] \<and>
   forward ex_random_engine [[1]] = Inr ex_random_result \<and>
   r_output ex_random_result = [[1 / 4]] \<and>
   matmul_opt (concatenated ex_random_result) (this_Wo ex_random_engine) = Inr [[0]]"
proof -
  have "map Wo (heads ex_random_engine) = [Some [[1 / 2]]]"
    by (simp add: ex_random_engine_def)
  moreover have "r_output ex_random_result = [[1 / 4]]"
    by (simp add: ex_random_result_def)
  moreover have "matmul_opt (concatenated ex_random_result) (this_Wo ex_random_engine) = Inr [[0]]"
    by (simp add: ex_random_engine_def ex_random_result_def matmul_opt_def matmul_def
        dot_row_def elem_def)
  ultimately show ?thesis
    using ex_random_create ex_random_forward by blast
qed

text \<open>
  Claim C10. After a successful \<open>loadPreExtractedWeights\<close> the combined \<open>Wo\<close> of the
  engine is \<open>null\<close> and its heads are the bundle's. So, for a bundle whose \<open>config\<close>
  does not contradict the number of its heads, \<open>forward\<close> can only succeed if every
  loaded head carries a per-head \<open>Wo\<close>: if some head lacks it, \<open>forward\<close> throws (at the
  latest when the combined branch multiplies by the missing \<open>Wo\<close>), whatever the
  embeddings.
\<close>

theorem per_head_load_leaves_combined_Wo_null:
  assumes "loadPreExtractedWeights e0 (Some w) name = (None, e)"
    and "w_heads w = Some hs" and "num_heads_agrees w (length hs)"
  shows "this_Wo e = None \<and> heads e = hs \<and>
         ((\<exists>h \<in> set hs. Wo h = None) \<longrightarrow> forward e X = Inl TypeError)"
proof -
  note l = loadPreExtractedWeights_None [OF assms(1,2)]
  have "forward e X = Inl TypeError" if mem: "h \<in> set hs" and none: "Wo h = None" for h
  proof -
    obtain i where "i < length hs" "hs ! i = h"
      using mem by (auto simp: in_set_conv_nth)
    then show ?thesis
      using forward_missing_Wo [OF l(1), of i X] l(2) l(3) [OF assms(3)] none by simp
  qed
  then show ?thesis
    using l(1,2) by blast
qed

theorem per_head_load_leaves_combined_Wo_null_witness:
  "loadPreExtractedWeights (constructor 2 2 1) (Some ex_mixed_bundle) None = (None, ex_mixed_engine) \<and>
   this_Wo ex_mixed_engine = None \<and>
   Wo (heads ex_mixed_engine ! 1) = None \<and>
   forward ex_mixed_engine ex_X = Inl TypeError"
proof -
  have hs: "w_heads ex_mixed_bundle = Some [ex_head1, ex_head2\<lparr>Wo := None\<rparr>]"
    by (simp add: ex_mixed_bundle_def)
  have ag: "num_heads_agrees ex_mixed_bundle (length [ex_head1, ex_head2\<lparr>Wo := None\<rparr>])"
    by (simp add: num_heads_agrees_def ex_mixed_bundle_def dim_agrees_def)
  have ex: "\<exists>h \<in> set [ex_head1, ex_head2\<lparr>Wo := None\<rparr>]. Wo h = None"
    by simp
  show ?thesis
    using per_head_load_leaves_combined_Wo_null [OF ex_mixed_load hs ag, of ex_X] ex
    by (simp add: ex_mixed_load ex_mixed_engine_def)
qed

end
